theory Spec2Isabelle
  imports Complex_Main "HOL-Library.Word" "HOL-Library.Finite_Map"
begin

unbundle bit_operations_syntax

section \<open>Script: byte encoding of operands (script/script.go)\<close>

text \<open>
  A script is a Go byte slice. Program counters and lengths are Go \<open>int\<close>s (64 bit on the
  supported platforms); they are modelled as \<open>int\<close>, script lengths being far below
  \<open>2^63\<close>. An \<open>Operand\<close> is a byte slice that may be \<open>nil\<close>: \<open>None\<close> is \<open>nil\<close>.
\<close>

type_synonym byte = "8 word"
type_synonym Script = "byte list"
type_synonym OpCode = byte
type_synonym Operand = "byte list option"

text \<open>
  Modelled from the spec: the opcode constants \<open>OPPUSHDATA1\<close>, \<open>OPPUSHDATA2\<close> and
  \<open>OPPUSHDATA4\<close> are declared in the package's opcode table, which is not among the
  sources; the spec gives their values as 0x4c, 0x4d and 0x4e.
\<close>

definition OPPUSHDATA1 :: OpCode where
  "OPPUSHDATA1 = 0x4c"

definition OPPUSHDATA2 :: OpCode where
  "OPPUSHDATA2 = 0x4d"

definition OPPUSHDATA4 :: OpCode where
  "OPPUSHDATA4 = 0x4e"

text \<open>
  The errors of the script package. The older \<open>parseNextOp\<close> of the file builds the same
  errors with \<open>errors.New\<close> at the same places; only their texts differ.
\<close>

datatype ScriptError =
    ErrScriptBound
  | ErrNoEnoughDataOPPUSHDATA1
  | ErrNoEnoughDataOPPUSHDATA2
  | ErrNoEnoughDataOPPUSHDATA4
  | ErrInputIndexOutOfBound
  | ErrOther string

text \<open>
  \<open>encoding/binary\<close>, little endian. \<open>Uint16 b\<close> reads \<open>b[0]\<close> and \<open>b[1]\<close> and nothing
  else, whatever the length of \<open>b\<close>; \<open>Uint32 b\<close> reads four bytes. Both are only called on
  slices that the caller has checked to be long enough.
\<close>

definition Uint16 :: "byte list \<Rightarrow> 16 word" where
  "Uint16 b = ucast (b ! 0) OR push_bit 8 (ucast (b ! 1))"

definition Uint32 :: "byte list \<Rightarrow> 32 word" where
  "Uint32 b = ucast (b ! 0) OR push_bit 8 (ucast (b ! 1))
                OR push_bit 16 (ucast (b ! 2)) OR push_bit 24 (ucast (b ! 3))"

definition PutUint16 :: "16 word \<Rightarrow> byte list" where
  "PutUint16 v = [ucast v, ucast (drop_bit 8 v)]"

definition PutUint32 :: "32 word \<Rightarrow> byte list" where
  "PutUint32 v = [ucast v, ucast (drop_bit 8 v), ucast (drop_bit 16 v), ucast (drop_bit 24 v)]"

text \<open>The slice expression \<open>s[lo:hi]\<close>, used where \<open>0 \<le> lo \<le> hi \<le> len(s)\<close> has been checked.\<close>

definition slice :: "'a list \<Rightarrow> int \<Rightarrow> int \<Rightarrow> 'a list" where
  "slice s lo hi = take (nat (hi - lo)) (drop (nat lo) s)"

definition NewScript :: Script where
  "NewScript = []"

definition AddOpCode :: "Script \<Rightarrow> OpCode \<Rightarrow> Script" where
  "AddOpCode s opCode = s @ [opCode]"

definition AddScript :: "Script \<Rightarrow> Script \<Rightarrow> Script" where
  "AddScript s script = s @ script"

text \<open>
  \<open>AddOperand\<close>: the length prefix is chosen by the length of the operand, then the operand
  follows. \<open>byte(dataLen)\<close>, \<open>uint16(dataLen)\<close> and \<open>uint32(dataLen)\<close> truncate.
\<close>

definition AddOperand :: "Script \<Rightarrow> byte list \<Rightarrow> Script" where
  "AddOperand s operand =
     (let dataLen = length operand in
      (if int dataLen < uint OPPUSHDATA1 then s @ [word_of_nat dataLen]
       else if dataLen \<le> 0xff then s @ [OPPUSHDATA1, word_of_nat dataLen]
       else if dataLen \<le> 0xffff then (s @ [OPPUSHDATA2]) @ PutUint16 (word_of_nat dataLen)
       else (s @ [OPPUSHDATA4]) @ PutUint32 (word_of_nat dataLen))
      @ operand)"

text \<open>
  \<open>parseNextOp\<close> returns the opcode, the operand, the new program counter and the error.
  The result \<open>None\<close> is the runtime panic of \<open>script[pc]\<close> at a negative \<open>pc\<close>. The
  operand size of \<open>OPPUSHDATA4\<close> is read with \<open>Uint16\<close> from the four-byte slice, as
  the source does.
\<close>

definition parseNextOp :: "Script \<Rightarrow> int \<Rightarrow> (OpCode \<times> Operand \<times> int \<times> ScriptError option) option" where
  "parseNextOp script pc =
     (let scriptLen = int (length script) in
      if pc \<ge> scriptLen then Some (0, None, pc, Some ErrScriptBound)
      else if pc < 0 then None
      else
        let opCode = script ! nat pc; pc1 = pc + 1 in
        if opCode > OPPUSHDATA4 then Some (opCode, None, pc1, None)
        else
          case (if opCode < OPPUSHDATA1 then Inr (uint opCode, pc1)
                else if opCode = OPPUSHDATA1 then
                  (if scriptLen - pc1 < 1 then Inl ErrNoEnoughDataOPPUSHDATA1
                   else Inr (uint (script ! nat pc1), pc1 + 1))
                else if opCode = OPPUSHDATA2 then
                  (if scriptLen - pc1 < 2 then Inl ErrNoEnoughDataOPPUSHDATA2
                   else Inr (uint (Uint16 (slice script pc1 (pc1 + 2))), pc1 + 2))
                else if opCode = OPPUSHDATA4 then
                  (if scriptLen - pc1 < 4 then Inl ErrNoEnoughDataOPPUSHDATA4
                   else Inr (uint (Uint16 (slice script pc1 (pc1 + 4))), pc1 + 4))
                else Inr (0, pc1))
          of Inl e \<Rightarrow> Some (opCode, None, pc1, Some e)
           | Inr (operandSize, pc2) \<Rightarrow>
               if scriptLen - pc2 < operandSize then Some (opCode, None, pc2, Some ErrScriptBound)
               else Some (opCode, Some (slice script pc2 (pc2 + operandSize)),
                          pc2 + operandSize, None))"


section \<open>Script: evaluation and validation (script/script.go)\<close>

lemma parseNextOp_advances:
  assumes "parseNextOp script pc = Some (opCode, operand, newPc, None)"
  shows "pc < newPc \<and> newPc \<le> int (length script)"
  using assms
  by (auto simp add: parseNextOp_def Let_def add_pos_nonneg
      split: if_splits sum.splits prod.splits)

lemma parseNextOp_no_panic:
  assumes "0 \<le> pc"
  shows "\<exists>opCode operand newPc err.
           parseNextOp script pc = Some (opCode, operand, newPc, err) \<and> 0 \<le> newPc"
  using assms
  by (auto simp add: parseNextOp_def Let_def split: if_splits sum.splits prod.splits)

text \<open>
  What the evaluator uses and the sources do not contain is a parameter: the opcode
  constants \<open>OPHASH160\<close>, \<open>OPEQUAL\<close> and \<open>OPCODESEPARATOR\<close> (the opcode table), the
  stack (\<open>newStack\<close>, \<open>validateTop\<close>), and \<open>execOp\<close>, each branch of which runs on the
  stack, on \<open>scriptNum\<close> and on the crypto package. \<open>execOp\<close> receives the script, the
  opcode and operand, the transaction and input index, the program counter after the
  operation, the start of the script public key and the stack; it returns an error, or
  the new start of the script public key and the new stack.
  The transaction is passed by pointer; evaluation leaves it as it found it (see
  \<open>CalcTxHashForSig\<close> below), so both phases of \<open>Validate\<close> read the same transaction.
\<close>

record ('tx, 'stk) ScriptVM =
  OPHASH160 :: OpCode
  OPEQUAL :: OpCode
  OPCODESEPARATOR :: OpCode
  newStack :: 'stk
  execOp :: "Script \<Rightarrow> OpCode \<Rightarrow> Operand \<Rightarrow> 'tx \<Rightarrow> int \<Rightarrow> int \<Rightarrow> int \<Rightarrow> 'stk
               \<Rightarrow> ScriptError + (int \<times> 'stk)"
  validateTop :: "'stk \<Rightarrow> ScriptError option"

text \<open>
  The loop of \<open>evaluate\<close>. The outer \<open>None\<close> is a runtime panic (of \<open>parseNextOp\<close>);
  \<open>Some None\<close> is the \<open>nil\<close> error, success.
\<close>

function evaluateLoop :: "('tx, 'stk) ScriptVM \<Rightarrow> Script \<Rightarrow> 'tx \<Rightarrow> int \<Rightarrow> int \<Rightarrow> int \<Rightarrow> 'stk
    \<Rightarrow> ScriptError option option" where
  "evaluateLoop vm script tx txInIdx pc scriptPubKeyStart stack =
     (if pc < int (length script) then
        (case parseNextOp script pc of
           None \<Rightarrow> None
         | Some (opCode, operand, newPc, Some err) \<Rightarrow> Some (Some err)
         | Some (opCode, operand, newPc, None) \<Rightarrow>
             (case execOp vm script opCode operand tx txInIdx newPc scriptPubKeyStart stack of
                Inl err \<Rightarrow> Some (Some err)
              | Inr (scriptPubKeyStart', stack') \<Rightarrow>
                  evaluateLoop vm script tx txInIdx newPc scriptPubKeyStart' stack'))
      else Some (validateTop vm stack))"
  by pat_completeness auto
termination
  by (relation "measure (\<lambda>(vm, script, tx, txInIdx, pc, sps, stack).
                   nat (int (length script) - pc))")
     (auto dest: parseNextOp_advances)

definition evaluate :: "('tx, 'stk) ScriptVM \<Rightarrow> Script \<Rightarrow> 'tx \<Rightarrow> int \<Rightarrow> ScriptError option option" where
  "evaluate vm script tx txInIdx = evaluateLoop vm script tx txInIdx 0 0 (newStack vm)"

text \<open>The bytes of an operand: a \<open>nil\<close> slice has length 0 and appends nothing.\<close>

definition bytesOf :: "Operand \<Rightarrow> byte list" where
  "bytesOf operand = (case operand of None \<Rightarrow> [] | Some bs \<Rightarrow> bs)"

definition IsPayToScriptHash :: "('tx, 'stk) ScriptVM \<Rightarrow> Script \<Rightarrow> bool" where
  "IsPayToScriptHash vm script =
     (length script = 23 \<and> script ! 0 = OPHASH160 vm \<and> script ! 1 = 20
      \<and> script ! 22 = OPEQUAL vm)"

text \<open>
  \<open>Validate\<close>. The errors of the two \<open>parseNextOp\<close> calls on \<open>scriptSig\<close> are dropped by
  the source (\<open>_\<close>), and a \<open>nil\<close> operand is used as it is.
\<close>

definition Validate :: "('tx, 'stk) ScriptVM \<Rightarrow> Script \<Rightarrow> Script \<Rightarrow> 'tx \<Rightarrow> int
    \<Rightarrow> ScriptError option option" where
  "Validate vm scriptSig scriptPubKey tx txInIdx =
     (let catScript = AddScript (AddOpCode (AddScript NewScript scriptSig)
                        (OPCODESEPARATOR vm)) scriptPubKey in
      case evaluate vm catScript tx txInIdx of
        None \<Rightarrow> None
      | Some (Some err) \<Rightarrow> Some (Some err)
      | Some None \<Rightarrow>
          if \<not> IsPayToScriptHash vm scriptPubKey then Some None
          else
            (case parseNextOp scriptSig 0 of
               None \<Rightarrow> None
             | Some (opCode1, sig, newPc, err1) \<Rightarrow>
                 let newScriptSig = AddOperand NewScript (bytesOf sig) in
                 (case parseNextOp scriptSig newPc of
                    None \<Rightarrow> None
                  | Some (opCode2, redeemScriptBytes, newPc2, err2) \<Rightarrow>
                      let redeemScript = bytesOf redeemScriptBytes;
                          catScript2 = AddScript (AddOpCode (AddScript NewScript newScriptSig)
                                         (OPCODESEPARATOR vm)) redeemScript
                      in evaluate vm catScript2 tx txInIdx)))"

text \<open>
  What the second phase of \<open>Validate\<close> takes from \<open>scriptSig\<close>: the operand that
  \<open>parseNextOp\<close> returns at a position, whatever the opcode and whatever the error (a
  \<open>nil\<close> operand has no bytes), and the position it returns. The signature is the operand
  taken at position 0, the redeem script the operand taken where the first operation ended.
  \<open>pushOperand\<close> is the push of a byte string.
\<close>

definition operandAt :: "Script \<Rightarrow> int \<Rightarrow> byte list \<times> int" where
  "operandAt script pc =
     (case parseNextOp script pc of
        None \<Rightarrow> ([], pc)
      | Some (opCode, operand, newPc, err) \<Rightarrow> (bytesOf operand, newPc))"

definition takenSignature :: "Script \<Rightarrow> byte list" where
  "takenSignature scriptSig = fst (operandAt scriptSig 0)"

definition takenRedeemScript :: "Script \<Rightarrow> Script" where
  "takenRedeemScript scriptSig = fst (operandAt scriptSig (snd (operandAt scriptSig 0)))"

definition pushOperand :: "byte list \<Rightarrow> Script" where
  "pushOperand d = AddOperand NewScript d"

text \<open>
  The words of the specification for the second phase, to parse \<open>script_sig\<close> as
  \<open>(signature, serialized_redeem_script)\<close>: \<open>scriptSig\<close> is a data push of the
  signature followed by a data push of the redeem script, and nothing else. A data push
  at a position is an operation that parses there without error and carries an operand;
  where \<open>scriptSig\<close> is not such a pair, the parse fails (\<open>None\<close>).
\<close>

definition specPushAt :: "Script \<Rightarrow> int \<Rightarrow> (byte list \<times> int) option" where
  "specPushAt script pc =
     (case parseNextOp script pc of
        Some (opCode, Some bs, newPc, None) \<Rightarrow> Some (bs, newPc)
      | _ \<Rightarrow> None)"

definition specScriptSigPair :: "Script \<Rightarrow> (byte list \<times> Script) option" where
  "specScriptSigPair scriptSig =
     (case specPushAt scriptSig 0 of
        None \<Rightarrow> None
      | Some (signature, pc1) \<Rightarrow>
          (case specPushAt scriptSig pc1 of
             None \<Rightarrow> None
           | Some (redeemScript, pc2) \<Rightarrow>
               if pc2 = int (length scriptSig) then Some (signature, redeemScript) else None))"

text \<open>
  A machine for the examples, with the branches of \<open>execOp\<close> that they run: a data push
  pushes its operand, \<open>OP_1\<close> to \<open>OP_16\<close> (0x51 to 0x60) push the number, \<open>OP_HASH160\<close>
  (0xa9) replaces the top by its hash, \<open>OP_EQUAL\<close> (0x87) replaces the two top elements by
  true or false, \<open>OP_CODESEPARATOR\<close> (0xab) records the position; any other opcode is an
  error. The stack is a list, the top first; it validates when its top has a non-zero
  byte. The crypto package is not among the sources: \<open>hashExample\<close>, the first 20 bytes
  of the zero-padded argument, stands for \<open>crypto.Hash160\<close>, and \<open>p2shOf r\<close> is the
  pay-to-script-hash script that commits to the redeem script \<open>r\<close>.
\<close>

definition hashExample :: "byte list \<Rightarrow> byte list" where
  "hashExample bs = take 20 (bs @ [0, 0, 0, 0, 0, 0, 0, 0, 0, 0, 0, 0, 0, 0, 0, 0, 0, 0, 0, 0])"

definition vmStack :: "(unit, byte list list) ScriptVM" where
  "vmStack = \<lparr>OPHASH160 = 0xa9, OPEQUAL = 0x87, OPCODESEPARATOR = 0xab, newStack = [],
     execOp = (\<lambda>script opCode operand tx txInIdx pc sps stack.
        if opCode \<le> OPPUSHDATA4 then Inr (sps, bytesOf operand # stack)
        else if 0x51 \<le> opCode \<and> opCode \<le> 0x60 then Inr (sps, [opCode - 0x50] # stack)
        else if opCode = 0xa9 then
          (case stack of
             [] \<Rightarrow> Inl (ErrOther ''invalid stack operation'')
           | x # rest \<Rightarrow> Inr (sps, hashExample x # rest))
        else if opCode = 0x87 then
          (case stack of
             op2 # op1 # rest \<Rightarrow> Inr (sps, (if op1 = op2 then [1] else []) # rest)
           | _ \<Rightarrow> Inl (ErrOther ''invalid stack operation''))
        else if opCode = 0xab then Inr (pc, stack)
        else Inl (ErrOther ''bad opcode'')),
     validateTop = (\<lambda>stack.
        case stack of
          [] \<Rightarrow> Some (ErrOther ''empty stack'')
        | x # rest \<Rightarrow> if list_ex (\<lambda>b. b \<noteq> 0) x then None
                      else Some (ErrOther ''false top''))\<rparr>"

definition p2shOf :: "Script \<Rightarrow> Script" where
  "p2shOf redeemScript = [0xa9, 0x14] @ hashExample redeemScript @ [0x87]"

section \<open>Properties of the operand encoding\<close>

lemma Uint16_PutUint16: "Uint16 (PutUint16 v @ rest) = v"
  unfolding Uint16_def PutUint16_def
  apply simp
  apply (rule bit_word_eqI)
  apply (auto simp add: bit_simps)
  done

lemma roundtrip_direct:
  assumes "length d < 0x4c"
  shows "parseNextOp (AddOperand NewScript d) 0
           = Some (word_of_nat (length d), Some d, int (length (AddOperand NewScript d)), None)"
proof -
  let ?b = "word_of_nat (length d) :: byte"
  have u: "unat ?b = length d" using assms by (simp add: unat_of_nat)
  have lt: "?b < 0x4c" using u assms by (simp add: word_less_nat_alt)
  have nlt: "\<not> 0x4e < ?b" using u assms by (simp add: word_less_nat_alt)
  have ui: "uint ?b = int (length d)" using u by (metis uint_nat)
  have sl: "slice (?b # d) 1 (1 + int (length d)) = d" by (simp add: slice_def)
  show ?thesis using assms lt nlt ui sl
    by (simp add: AddOperand_def NewScript_def parseNextOp_def OPPUSHDATA1_def
        OPPUSHDATA2_def OPPUSHDATA4_def Let_def)
qed

lemma roundtrip_pushdata1:
  assumes "\<not> length d < 0x4c" "length d \<le> 0xff"
  shows "parseNextOp (AddOperand NewScript d) 0
           = Some (OPPUSHDATA1, Some d, int (length (AddOperand NewScript d)), None)"
proof -
  let ?b = "word_of_nat (length d) :: byte"
  have u: "unat ?b = length d" using assms by (simp add: unat_of_nat)
  have ui: "uint ?b = int (length d)" using u by (metis uint_nat)
  have sl: "slice (0x4c # ?b # d) 2 (2 + int (length d)) = d" by (simp add: slice_def)
  show ?thesis using assms ui sl
    by (simp add: AddOperand_def NewScript_def parseNextOp_def OPPUSHDATA1_def
        OPPUSHDATA2_def OPPUSHDATA4_def Let_def)
qed

lemma roundtrip_pushdata2:
  assumes "\<not> length d \<le> 0xff" "length d \<le> 0xffff"
  shows "parseNextOp (AddOperand NewScript d) 0
           = Some (OPPUSHDATA2, Some d, int (length (AddOperand NewScript d)), None)"
proof -
  let ?v = "word_of_nat (length d) :: 16 word"
  have u: "unat ?v = length d" using assms by (simp add: unat_of_nat)
  have ui: "uint ?v = int (length d)" using u by (metis uint_nat)
  have s2: "slice (0x4d # PutUint16 ?v @ d) 1 3 = PutUint16 ?v"
    by (simp add: slice_def PutUint16_def)
  have r: "Uint16 (slice (0x4d # PutUint16 ?v @ d) 1 3) = ?v"
    using Uint16_PutUint16[of ?v "[]"] by (simp add: s2)
  have sl: "slice (0x4d # PutUint16 ?v @ d) 3 (3 + int (length d)) = d"
    by (simp add: slice_def PutUint16_def)
  have len: "length (PutUint16 ?v) = 2" by (simp add: PutUint16_def)
  show ?thesis using assms ui sl r len
    by (simp add: AddOperand_def NewScript_def parseNextOp_def OPPUSHDATA1_def
        OPPUSHDATA2_def OPPUSHDATA4_def Let_def)
qed

text \<open>
  Claim C1. At an \<open>OPPUSHDATA4\<close> opcode followed by at least four bytes, the operand size
  should be the little-endian 32-bit integer of those four bytes. The source reads it with
  \<open>Uint16\<close>, so only the first two bytes count: in the script \<open>4e 01 00 01 00 aa\<close> the
  four length bytes encode 65537, of which a single byte remains, yet \<open>parseNextOp\<close>
  returns the one-byte operand \<open>aa\<close>, the program counter 6 and no error.
\<close>

theorem parseNextOp_OPPUSHDATA4_reads_two_length_bytes:
  "parseNextOp [0x4e, 0x01, 0x00, 0x01, 0x00, 0xaa] 0 = Some (OPPUSHDATA4, Some [0xaa], 6, None)
   \<and> Uint32 (slice [0x4e, 0x01, 0x00, 0x01, 0x00, 0xaa] 1 5) = 65537"
  by (simp add: parseNextOp_def OPPUSHDATA1_def OPPUSHDATA2_def OPPUSHDATA4_def
      Uint16_def Uint32_def slice_def)

text \<open>
  Claim C10. For every byte string \<open>d\<close> with \<open>0 < len(d) \<le> 0xffff\<close>, parsing
  \<open>NewScript().AddOperand(d)\<close> at position 0 returns the operand \<open>d\<close>, no error, and a
  program counter equal to the length of the script.
\<close>

theorem AddOperand_parseNextOp_roundtrip:
  assumes "0 < length d" and "length d \<le> 0xffff"
  shows "\<exists>opCode. parseNextOp (AddOperand NewScript d) 0
           = Some (opCode, Some d, int (length (AddOperand NewScript d)), None)"
  using roundtrip_direct[of d] roundtrip_pushdata1[of d] roundtrip_pushdata2[of d] assms
  by blast

theorem AddOperand_parseNextOp_roundtrip_witness:
  "0 < length [0xaa, 0xbb :: byte] \<and> length [0xaa, 0xbb :: byte] \<le> 0xffff
   \<and> (\<exists>opCode. parseNextOp (AddOperand NewScript [0xaa, 0xbb]) 0
          = Some (opCode, Some [0xaa, 0xbb], 3, None))"
  using AddOperand_parseNextOp_roundtrip[of "[0xaa, 0xbb]"]
  by (simp add: AddOperand_def NewScript_def OPPUSHDATA1_def)

section \<open>Properties of validation\<close>

lemma Validate_p2sh:
  assumes "evaluate vm (scriptSig @ [OPCODESEPARATOR vm] @ scriptPubKey) tx i = Some None"
    and "IsPayToScriptHash vm scriptPubKey"
  shows "Validate vm scriptSig scriptPubKey tx i
       = evaluate vm (pushOperand (takenSignature scriptSig) @ [OPCODESEPARATOR vm]
                        @ takenRedeemScript scriptSig) tx i"
proof -
  obtain o1 s1 pc1 e1 where p1: "parseNextOp scriptSig 0 = Some (o1, s1, pc1, e1)"
    and nn: "0 \<le> pc1"
    using parseNextOp_no_panic[of 0 scriptSig] by auto
  obtain o2 s2 pc2 e2 where p2: "parseNextOp scriptSig pc1 = Some (o2, s2, pc2, e2)"
    using parseNextOp_no_panic[OF nn, of scriptSig] by auto
  show ?thesis using assms p1 p2
    by (simp add: Validate_def AddScript_def AddOpCode_def NewScript_def Let_def
        pushOperand_def takenSignature_def takenRedeemScript_def operandAt_def)
qed

lemma Validate_phase1_fails:
  assumes "evaluate vm (scriptSig @ [OPCODESEPARATOR vm] @ scriptPubKey) tx i \<noteq> Some None"
  shows "Validate vm scriptSig scriptPubKey tx i
       = evaluate vm (scriptSig @ [OPCODESEPARATOR vm] @ scriptPubKey) tx i"
  using assms
  by (auto simp add: Validate_def AddScript_def AddOpCode_def NewScript_def Let_def
      split: option.splits)

lemma Validate_not_p2sh:
  assumes "\<not> IsPayToScriptHash vm scriptPubKey"
  shows "Validate vm scriptSig scriptPubKey tx i
       = evaluate vm (scriptSig @ [OPCODESEPARATOR vm] @ scriptPubKey) tx i"
  using assms
  by (auto simp add: Validate_def AddScript_def AddOpCode_def NewScript_def Let_def
      split: option.splits)

text \<open>
  Where \<open>scriptSig\<close> is a pair of pushes, the second phase runs on that signature and
  that redeem script, and \<open>Validate\<close> succeeds iff both phases do.
\<close>

lemma specScriptSigPair_taken:
  assumes "specScriptSigPair scriptSig = Some (signature, redeemScript)"
  shows "takenSignature scriptSig = signature \<and> takenRedeemScript scriptSig = redeemScript"
  using assms
  by (auto simp add: specScriptSigPair_def specPushAt_def takenSignature_def
      takenRedeemScript_def operandAt_def bytesOf_def
      split: option.splits prod.splits if_splits)

lemma Validate_on_pairs:
  assumes "specScriptSigPair scriptSig = Some (signature, redeemScript)"
  shows "Validate vm scriptSig scriptPubKey tx i = Some None \<longleftrightarrow>
      evaluate vm (scriptSig @ [OPCODESEPARATOR vm] @ scriptPubKey) tx i = Some None
      \<and> (IsPayToScriptHash vm scriptPubKey \<longrightarrow>
           evaluate vm (pushOperand signature @ [OPCODESEPARATOR vm] @ redeemScript) tx i
             = Some None)"
proof (cases "evaluate vm (scriptSig @ [OPCODESEPARATOR vm] @ scriptPubKey) tx i = Some None")
  case True
  then show ?thesis
    using Validate_p2sh[of vm scriptSig scriptPubKey tx i]
      Validate_not_p2sh[of vm scriptPubKey scriptSig tx i]
      specScriptSigPair_taken[OF assms]
    by (cases "IsPayToScriptHash vm scriptPubKey") auto
next
  case False
  then show ?thesis using Validate_phase1_fails[of vm scriptSig scriptPubKey tx i] by simp
qed

lemmas script_examples = evaluate_def vmStack_def p2shOf_def hashExample_def parseNextOp_def
  OPPUSHDATA1_def OPPUSHDATA2_def OPPUSHDATA4_def slice_def bytesOf_def pushOperand_def
  AddOperand_def NewScript_def

text \<open>
  A script signature that is a pair: the push of \<open>aa\<close> and the push of the redeem script
  \<open>51\<close> (\<open>OP_1\<close>), against the output that commits to it.
\<close>

lemma pair_example:
  "specScriptSigPair [0x01, 0xaa, 0x01, 0x51] = Some ([0xaa], [0x51])
   \<and> Validate vmStack [0x01, 0xaa, 0x01, 0x51] (p2shOf [0x51]) () 0 = Some None"
proof -
  have p: "specScriptSigPair [0x01, 0xaa, 0x01, 0x51] = Some ([0xaa], [0x51])"
    by (simp add: specScriptSigPair_def specPushAt_def script_examples)
  have h: "IsPayToScriptHash vmStack (p2shOf [0x51])"
    by (simp add: IsPayToScriptHash_def script_examples)
  have e1: "evaluate vmStack ([0x01, 0xaa, 0x01, 0x51] @ [OPCODESEPARATOR vmStack]
              @ p2shOf [0x51]) () 0 = Some None"
    by (simp add: script_examples)
  have e2: "evaluate vmStack (pushOperand [0xaa] @ [OPCODESEPARATOR vmStack] @ [0x51]) () 0
              = Some None"
    by (simp add: script_examples)
  show ?thesis using Validate_on_pairs[OF p, of vmStack "p2shOf [0x51]" "()" 0] p h e1 e2
    by simp
qed

lemma no_pair_phase1:
  "evaluate vmStack ([0x01, 0xaa, 0x51] @ [OPCODESEPARATOR vmStack] @ p2shOf [0x01]) () 0
     = Some None"
  by (simp add: script_examples)

lemma no_pair_taken:
  "takenSignature [0x01, 0xaa, 0x51] = [0xaa] \<and> takenRedeemScript [0x01, 0xaa, 0x51] = []"
  by (simp add: takenSignature_def takenRedeemScript_def operandAt_def script_examples)

lemma no_pair_phase2:
  "evaluate vmStack (pushOperand [0xaa] @ [OPCODESEPARATOR vmStack] @ []) () 0 = Some None"
  by (simp add: script_examples)

lemma no_pair_p2sh: "IsPayToScriptHash vmStack (p2shOf [0x01])"
  by (simp add: IsPayToScriptHash_def script_examples)

text \<open>
  The same with a script signature that ends after its first push: the second
  \<open>parseNextOp\<close> returns \<open>ErrScriptBound\<close>, which is dropped.
\<close>

lemma dropped_error_example:
  "parseNextOp [0x01, 0x88] 2 = Some (0, None, 2, Some ErrScriptBound)
   \<and> specScriptSigPair [0x01, 0x88] = None
   \<and> Validate vmStack [0x01, 0x88] (p2shOf [0x88]) () 0 = Some None"
proof -
  have e: "parseNextOp [0x01, 0x88] 2 = Some (0, None, 2, Some ErrScriptBound)"
    by (simp add: script_examples)
  have n: "specScriptSigPair [0x01, 0x88] = None"
    by (simp add: specScriptSigPair_def specPushAt_def script_examples)
  have h: "IsPayToScriptHash vmStack (p2shOf [0x88])"
    by (simp add: IsPayToScriptHash_def script_examples)
  have p1: "evaluate vmStack ([0x01, 0x88] @ [OPCODESEPARATOR vmStack] @ p2shOf [0x88]) () 0
              = Some None"
    by (simp add: script_examples)
  have t: "takenSignature [0x01, 0x88] = [0x88] \<and> takenRedeemScript [0x01, 0x88] = []"
    by (simp add: takenSignature_def takenRedeemScript_def operandAt_def script_examples)
  have p2: "evaluate vmStack (pushOperand [0x88] @ [OPCODESEPARATOR vmStack] @ []) () 0
              = Some None"
    by (simp add: script_examples)
  have v: "Validate vmStack [0x01, 0x88] (p2shOf [0x88]) () 0 = Some None"
    using Validate_p2sh[OF p1 h] t p2 by simp
  show ?thesis using e n v by simp
qed

text \<open>
  Claim C2. \<open>Validate\<close> succeeds on a pay-to-script-hash output although \<open>scriptSig\<close> is
  not a pair of signature and serialized redeem script, so that the second phase as the
  claim words it cannot succeed. The script public key \<open>p2shOf [0x01]\<close> has the 23-byte
  form and commits to the redeem script \<open>01\<close>. The script signature \<open>01 aa 51\<close> is the
  push of \<open>aa\<close> followed by \<open>OP_1\<close>, which is no data push: it is not a pair. Phase 1
  succeeds, since \<open>OP_1\<close> leaves the byte \<open>01\<close> on the stack, whose hash is the committed
  one. \<open>Validate\<close> then takes the missing operand of \<open>OP_1\<close> for an empty redeem script
  and succeeds on \<open>push(aa) || OP_CODESEPARATOR\<close>; the committed script \<open>01\<close>, a push
  that lacks its data, is never run, and its run fails.
\<close>

theorem Validate_accepts_scriptSig_that_is_no_pair:
  "IsPayToScriptHash vmStack (p2shOf [0x01])
   \<and> evaluate vmStack ([0x01, 0xaa, 0x51] @ [OPCODESEPARATOR vmStack] @ p2shOf [0x01]) () 0
       = Some None
   \<and> specScriptSigPair [0x01, 0xaa, 0x51] = None
   \<and> takenSignature [0x01, 0xaa, 0x51] = [0xaa]
   \<and> takenRedeemScript [0x01, 0xaa, 0x51] = []
   \<and> evaluate vmStack (pushOperand [0xaa] @ [OPCODESEPARATOR vmStack] @ [0x01]) () 0
       = Some (Some ErrScriptBound)
   \<and> Validate vmStack [0x01, 0xaa, 0x51] (p2shOf [0x01]) () 0 = Some None"
proof -
  have n: "specScriptSigPair [0x01, 0xaa, 0x51] = None"
    by (simp add: specScriptSigPair_def specPushAt_def script_examples)
  have c: "evaluate vmStack (pushOperand [0xaa] @ [OPCODESEPARATOR vmStack] @ [0x01]) () 0
             = Some (Some ErrScriptBound)"
    by (simp add: script_examples)
  have v: "Validate vmStack [0x01, 0xaa, 0x51] (p2shOf [0x01]) () 0 = Some None"
    using Validate_p2sh[OF no_pair_phase1 no_pair_p2sh] no_pair_taken no_pair_phase2 by simp
  show ?thesis using no_pair_p2sh no_pair_phase1 n no_pair_taken c v by simp
qed

section \<open>Transactions and the signature hash (script/script.go, CalcTxHashForSig)\<close>

text \<open>
  Modelled from the spec: the types of \<open>core/types\<close> are not among the sources; their
  fields are those of the spec's data model. \<open>CalcTxHashForSig\<close> assigns to
  \<open>txIn.ScriptSig\<close> through the range variable of \<open>tx.Vin\<close>: the elements of \<open>Vin\<close>
  are pointers to inputs. The inputs live in a store from addresses to \<open>TxIn\<close> values and
  \<open>Vin\<close> is a list of addresses; an address with no object is the \<open>nil\<close> pointer, whose
  dereference panics. A script signature is a byte slice that may be \<open>nil\<close>.
\<close>


type_synonym HashType = "256 word"

record OutPoint =
  OutPointHash :: HashType
  OutPointIndex :: "32 word"

record TxIn =
  PrevOutPoint :: OutPoint
  ScriptSig :: "byte list option"
  Sequence :: "32 word"

record TxOut =
  Value :: "64 word"
  ScriptPubKey :: "byte list"

record Transaction =
  Version :: "32 word"
  Vin :: "nat list"
  Vout :: "TxOut list"
  LockTime :: "32 word"

type_synonym TxInHeap = "nat \<rightharpoonup> TxIn"

text \<open>
  The first loop of \<open>CalcTxHashForSig\<close> saves every script signature and overwrites it;
  the second loop writes the saved values back. \<open>None\<close> is a runtime panic. The hash
  function \<open>tx.CalcTxHash()\<close> is a parameter: it reads the transaction and its inputs
  and returns a hash or an error.
\<close>

fun blankScriptSigs :: "byte list option \<Rightarrow> int \<Rightarrow> nat \<Rightarrow> nat list \<Rightarrow> byte list option list \<Rightarrow> TxInHeap
    \<Rightarrow> (byte list option list \<times> TxInHeap) option" where
  "blankScriptSigs scriptPubKey txInIdx i [] oldScriptSigs heap = Some (oldScriptSigs, heap)"
| "blankScriptSigs scriptPubKey txInIdx i (p # ps) oldScriptSigs heap =
     (case heap p of
        None \<Rightarrow> None
      | Some txIn \<Rightarrow>
          blankScriptSigs scriptPubKey txInIdx (i + 1) ps (oldScriptSigs @ [ScriptSig txIn])
            (heap(p \<mapsto> txIn\<lparr>ScriptSig := (if int i \<noteq> txInIdx then None else scriptPubKey)\<rparr>)))"

fun recoverScriptSigs :: "nat \<Rightarrow> nat list \<Rightarrow> byte list option list \<Rightarrow> TxInHeap \<Rightarrow> TxInHeap option" where
  "recoverScriptSigs i [] oldScriptSigs heap = Some heap"
| "recoverScriptSigs i (p # ps) oldScriptSigs heap =
     (case heap p of
        None \<Rightarrow> None
      | Some txIn \<Rightarrow>
          if i < length oldScriptSigs
          then recoverScriptSigs (i + 1) ps oldScriptSigs (heap(p \<mapsto> txIn\<lparr>ScriptSig := oldScriptSigs ! i\<rparr>))
          else None)"

definition CalcTxHashForSig :: "(TxInHeap \<Rightarrow> Transaction \<Rightarrow> HashType option \<times> ScriptError option) \<Rightarrow> byte list option \<Rightarrow> Transaction \<Rightarrow> int \<Rightarrow> TxInHeap
   \<Rightarrow> ((HashType option \<times> ScriptError option) \<times> TxInHeap) option" where
  "CalcTxHashForSig CalcTxHash scriptPubKey tx txInIdx heap =
     (if txInIdx \<ge> int (length (Vin tx)) then Some ((None, Some ErrInputIndexOutOfBound), heap)
      else
        case blankScriptSigs scriptPubKey txInIdx 0 (Vin tx) [] heap of
          None \<Rightarrow> None
        | Some (oldScriptSigs, heap1) \<Rightarrow>
            let (sigHash, err) = CalcTxHash heap1 tx in
            (case recoverScriptSigs 0 (Vin tx) oldScriptSigs heap1 of
               None \<Rightarrow> None
             | Some heap2 \<Rightarrow> Some ((sigHash, err), heap2)))"

definition heapExample :: TxInHeap where
  "heapExample = [0 \<mapsto> \<lparr>PrevOutPoint = \<lparr>OutPointHash = 1, OutPointIndex = 0\<rparr>,
                          ScriptSig = Some [0x01, 0xaa], Sequence = 0\<rparr>,
                  1 \<mapsto> \<lparr>PrevOutPoint = \<lparr>OutPointHash = 2, OutPointIndex = 3\<rparr>,
                          ScriptSig = None, Sequence = 0\<rparr>]"

definition txExample :: Transaction where
  "txExample = \<lparr>Version = 1, Vin = [0, 1], Vout = [\<lparr>Value = 50, ScriptPubKey = [0x51]\<rparr>],
                LockTime = 0\<rparr>"

section \<open>Properties of the signature hash\<close>

lemma blankScriptSigs_result:
  assumes "distinct ps" and "set ps \<subseteq> dom heap"
  shows "\<exists>heap1. blankScriptSigs spk idx i ps old heap
            = Some (old @ map (\<lambda>p. ScriptSig (the (heap p))) ps, heap1)
          \<and> (\<forall>p. p \<notin> set ps \<longrightarrow> heap1 p = heap p)
          \<and> (\<forall>p \<in> set ps. \<exists>s. heap1 p = Some ((the (heap p))\<lparr>ScriptSig := s\<rparr>))"
  using assms
proof (induction ps arbitrary: i old heap)
  case Nil
  then show ?case by simp
next
  case (Cons p ps)
  from Cons.prems obtain txIn where h: "heap p = Some txIn" by auto
  let ?heap' = "heap(p \<mapsto> txIn\<lparr>ScriptSig := (if int i \<noteq> idx then None else spk)\<rparr>)"
  have d: "distinct ps" and np: "p \<notin> set ps" using Cons.prems by auto
  have sub: "set ps \<subseteq> dom ?heap'" using Cons.prems by auto
  from Cons.IH[OF d sub, of "i + 1" "old @ [ScriptSig txIn]"]
  obtain heap1 where r: "blankScriptSigs spk idx (i + 1) ps (old @ [ScriptSig txIn]) ?heap'
            = Some ((old @ [ScriptSig txIn]) @ map (\<lambda>q. ScriptSig (the (?heap' q))) ps, heap1)"
    and out: "\<forall>q. q \<notin> set ps \<longrightarrow> heap1 q = ?heap' q"
    and inn: "\<forall>q \<in> set ps. \<exists>s. heap1 q = Some ((the (?heap' q))\<lparr>ScriptSig := s\<rparr>)"
    by blast
  have m: "map (\<lambda>q. ScriptSig (the (?heap' q))) ps = map (\<lambda>q. ScriptSig (the (heap q))) ps"
    using np by (intro map_cong) auto
  have "blankScriptSigs spk idx i (p # ps) old heap
          = Some (old @ map (\<lambda>q. ScriptSig (the (heap q))) (p # ps), heap1)"
    using h r m by simp
  moreover have "\<forall>q. q \<notin> set (p # ps) \<longrightarrow> heap1 q = heap q"
    using out by auto
  moreover have "\<forall>q \<in> set (p # ps). \<exists>s. heap1 q = Some ((the (heap q))\<lparr>ScriptSig := s\<rparr>)"
  proof
    fix q assume q: "q \<in> set (p # ps)"
    show "\<exists>s. heap1 q = Some ((the (heap q))\<lparr>ScriptSig := s\<rparr>)"
    proof (cases "q = p")
      case True
      then have "heap1 q = ?heap' p" using out np by simp
      then show ?thesis using h True by auto
    next
      case False
      then have qs: "q \<in> set ps" using q by simp
      from inn[rule_format, OF qs] False show ?thesis by simp
    qed
  qed
  ultimately show ?case by blast
qed

lemma recoverScriptSigs_result:
  assumes "distinct ps"
    and "\<forall>p \<in> set ps. \<exists>s. heap1 p = Some ((the (heap p))\<lparr>ScriptSig := s\<rparr>)"
    and "length old = i"
  shows "\<exists>heap2. recoverScriptSigs i ps (old @ map (\<lambda>p. ScriptSig (the (heap p))) ps @ rest) heap1 = Some heap2
          \<and> (\<forall>p. p \<notin> set ps \<longrightarrow> heap2 p = heap1 p)
          \<and> (\<forall>p \<in> set ps. heap2 p = Some (the (heap p)))"
  using assms
proof (induction ps arbitrary: i old heap1 rest)
  case Nil
  then show ?case by simp
next
  case (Cons p ps)
  from Cons.prems(2) obtain s where h1: "heap1 p = Some ((the (heap p))\<lparr>ScriptSig := s\<rparr>)" by auto
  let ?all = "old @ map (\<lambda>p. ScriptSig (the (heap p))) (p # ps) @ rest"
  have idx: "i < length ?all" "?all ! i = ScriptSig (the (heap p))"
    using Cons.prems(3) by (auto simp add: nth_append)
  let ?heap' = "heap1(p \<mapsto> ((the (heap p))\<lparr>ScriptSig := s\<rparr>)\<lparr>ScriptSig := ScriptSig (the (heap p))\<rparr>)"
  have same: "((the (heap p))\<lparr>ScriptSig := s\<rparr>)\<lparr>ScriptSig := ScriptSig (the (heap p))\<rparr> = the (heap p)"
    by simp
  have d: "distinct ps" and np: "p \<notin> set ps" using Cons.prems(1) by auto
  have inn: "\<forall>q \<in> set ps. \<exists>s. ?heap' q = Some ((the (heap q))\<lparr>ScriptSig := s\<rparr>)"
    using Cons.prems(2) np by auto
  have len: "length (old @ [ScriptSig (the (heap p))]) = i + 1" using Cons.prems(3) by simp
  from Cons.IH[OF d inn len, of rest]
  obtain heap2 where r: "recoverScriptSigs (i + 1) ps ((old @ [ScriptSig (the (heap p))]) @ map (\<lambda>p. ScriptSig (the (heap p))) ps @ rest) ?heap' = Some heap2"
    and out: "\<forall>q. q \<notin> set ps \<longrightarrow> heap2 q = ?heap' q"
    and res: "\<forall>q \<in> set ps. heap2 q = Some (the (heap q))"
    by blast
  have "recoverScriptSigs i (p # ps) ?all heap1 = Some heap2"
    using h1 idx r by simp
  moreover have "\<forall>q. q \<notin> set (p # ps) \<longrightarrow> heap2 q = heap1 q" using out by auto
  moreover have "\<forall>q \<in> set (p # ps). heap2 q = Some (the (heap q))"
    using out res np same by auto
  ultimately show ?case by blast
qed

text \<open>
  Claim C4. After \<open>CalcTxHashForSig\<close> returns, with a hash or with an error, every input
  of the transaction is as it was before the call, its \<open>ScriptSig\<close> included; no other
  field of the transaction is assigned. The inputs of a transaction are distinct objects,
  none of them \<open>nil\<close>; for such a transaction the call returns and the store of inputs
  is the one it started from.
\<close>

theorem CalcTxHashForSig_restores_transaction:
  assumes "distinct (Vin tx)" and "set (Vin tx) \<subseteq> dom heap"
  shows "\<exists>result. CalcTxHashForSig CalcTxHash scriptPubKey tx txInIdx heap = Some (result, heap)"
proof (cases "txInIdx \<ge> int (length (Vin tx))")
  case True
  then show ?thesis by (simp add: CalcTxHashForSig_def)
next
  case False
  obtain heap1 where b: "blankScriptSigs scriptPubKey txInIdx 0 (Vin tx) [] heap
            = Some ([] @ map (\<lambda>p. ScriptSig (the (heap p))) (Vin tx), heap1)"
    and out1: "\<forall>p. p \<notin> set (Vin tx) \<longrightarrow> heap1 p = heap p"
    and in1: "\<forall>p \<in> set (Vin tx). \<exists>s. heap1 p = Some ((the (heap p))\<lparr>ScriptSig := s\<rparr>)"
    using blankScriptSigs_result[OF assms, of scriptPubKey txInIdx 0 "[]"] by blast
  obtain heap2 where r: "recoverScriptSigs 0 (Vin tx) ([] @ map (\<lambda>p. ScriptSig (the (heap p))) (Vin tx) @ []) heap1 = Some heap2"
    and out2: "\<forall>p. p \<notin> set (Vin tx) \<longrightarrow> heap2 p = heap1 p"
    and in2: "\<forall>p \<in> set (Vin tx). heap2 p = Some (the (heap p))"
    using recoverScriptSigs_result[OF assms(1) in1, of "[]" 0 "[]"] by auto
  have "heap2 = heap"
  proof
    fix p show "heap2 p = heap p"
    proof (cases "p \<in> set (Vin tx)")
      case True
      then show ?thesis using in2 assms(2) by auto
    next
      case False
      then show ?thesis using out1 out2 by simp
    qed
  qed
  then show ?thesis using False b r
    by (simp add: CalcTxHashForSig_def split: prod.splits)
qed

theorem CalcTxHashForSig_restores_transaction_witness:
  "distinct (Vin txExample) \<and> set (Vin txExample) \<subseteq> dom heapExample
   \<and> (\<exists>result. CalcTxHashForSig (\<lambda>heap tx. (Some 7, None)) (Some [0x51]) txExample 1 heapExample
          = Some (result, heapExample))"
  using CalcTxHashForSig_restores_transaction[of txExample heapExample
      "\<lambda>heap tx. (Some 7, None)" "Some [0x51]" 1]
  by (simp add: txExample_def heapExample_def)

section \<open>The chain engine (the package chain in integration_tests/circulation.go)\<close>

text \<open>
  The errors of the package \<open>core\<close> that the chain engine returns, by their names in the
  source; \<open>ErrExternal\<close> is any error of a collaborator (storage, serialization,
  validation, the sync manager).
\<close>

datatype ChainError =
    ErrBlockExists
  | ErrFailedToVerifyWithConsensus
  | ErrParentBlockNotExist
  | ErrWrongBlockHeight
  | ErrBadFees
  | ErrBadCoinbaseValue
  | ErrFailedToSetEternal
  | ErrBlockIsNil
  | ErrExternal string

text \<open>
  A block, with the fields the engine reads: \<open>block.BlockHash()\<close>,
  \<open>block.Header.PrevBlockHash\<close>, \<open>block.Height\<close> and \<open>block.Txs\<close>.
\<close>

record Block =
  BlockHash :: HashType
  PrevBlockHash :: HashType
  Height :: "32 word"
  Txs :: "Transaction list"

text \<open>
  The fields of \<open>BlockChain\<close>. Those that \<open>tryAcceptBlock\<close> and the functions below it
  read and write (storage, genesis, tail, eternal, the longest height, the block cache) are
  grouped in \<open>ChainState\<close>; the two orphan maps, which only \<open>ProcessBlock\<close>,
  \<open>addOrphanBlock\<close> and \<open>processOrphans\<close> touch, stand beside it. The LRU cache is a map
  from hashes to blocks; locks, channels and the other two caches play no part here.
\<close>

record 'db ChainState =
  db :: 'db
  genesis :: Block
  tail :: Block
  eternal :: Block
  LongestChainHeight :: "32 word"
  cache :: "HashType \<rightharpoonup> Block"

record 'db BlockChain =
  core :: "'db ChainState"
  hashToOrphanBlock :: "(HashType, Block) fmap"
  orphanBlockHashToChildren :: "(HashType, Block list) fmap"

text \<open>
  The collaborators, not among the sources, are parameters: storage (\<open>db.Get\<close>,
  \<open>db.Put\<close>, the keys), serialization, the consensus signature check, \<open>validateBlock\<close> and
  the sync manager. \<open>tryAcceptBlock\<close> is a parameter too: a transformer of the chain
  state that returns an error or \<open>nil\<close>; it never reads or writes the orphan maps.
  A peer id is a string.
\<close>

record 'db ChainEnv =
  dbGet :: "'db \<Rightarrow> byte list \<Rightarrow> ChainError + byte list option"
  dbPut :: "'db \<Rightarrow> byte list \<Rightarrow> byte list \<Rightarrow> ChainError option \<times> 'db"
  BlockKey :: "HashType \<Rightarrow> byte list"
  EternalKey :: "byte list"
  Marshal :: "Block \<Rightarrow> ChainError + byte list"
  Unmarshal :: "byte list \<Rightarrow> ChainError + Block"
  VerifySign :: "Block \<Rightarrow> bool \<times> ChainError option"
  validateBlock :: "Block \<Rightarrow> ChainError option"
  ActiveLightSync :: "string \<Rightarrow> ChainError option"
  tryAcceptBlock :: "Block \<Rightarrow> 'db ChainState \<Rightarrow> ChainError option \<times> 'db ChainState"

definition Threshold :: "32 word" where
  "Threshold = 32"

text \<open>
  \<open>LoadBlockByHash\<close>, and the lookups built on it. A missing key of a Go map reads as
  \<open>nil\<close>: \<open>childrenOf\<close> is the slice under a hash, empty when there is none.
\<close>

definition LoadBlockByHash :: "'db ChainEnv \<Rightarrow> 'db ChainState \<Rightarrow> HashType \<Rightarrow> ChainError + Block" where
  "LoadBlockByHash env c hash =
     (case dbGet env (db c) (BlockKey env hash) of
        Inl err \<Rightarrow> Inl err
      | Inr None \<Rightarrow> Inl ErrBlockIsNil
      | Inr (Some blockBin) \<Rightarrow> Unmarshal env blockBin)"

definition blockExists :: "'db ChainEnv \<Rightarrow> 'db ChainState \<Rightarrow> HashType \<Rightarrow> bool" where
  "blockExists env c blockHash =
     (if cache c blockHash \<noteq> None then True
      else (case LoadBlockByHash env c blockHash of Inr block \<Rightarrow> True | Inl err \<Rightarrow> False))"

definition isInOrphanPool :: "'db BlockChain \<Rightarrow> HashType \<Rightarrow> bool" where
  "isInOrphanPool chain blockHash = (fmlookup (hashToOrphanBlock chain) blockHash \<noteq> None)"

definition verifyExists :: "'db ChainEnv \<Rightarrow> 'db BlockChain \<Rightarrow> HashType \<Rightarrow> bool" where
  "verifyExists env chain blockHash =
     (blockExists env (core chain) blockHash \<or> isInOrphanPool chain blockHash)"

definition childrenOf :: "'db BlockChain \<Rightarrow> HashType \<Rightarrow> Block list" where
  "childrenOf chain h =
     (case fmlookup (orphanBlockHashToChildren chain) h of None \<Rightarrow> [] | Some bs \<Rightarrow> bs)"

definition addOrphanBlock :: "Block \<Rightarrow> HashType \<Rightarrow> HashType \<Rightarrow> 'db BlockChain \<Rightarrow> 'db BlockChain" where
  "addOrphanBlock orphan orphanHash parentHash chain =
     chain\<lparr>hashToOrphanBlock := fmupd orphanHash orphan (hashToOrphanBlock chain),
           orphanBlockHashToChildren :=
             fmupd parentHash (childrenOf chain parentHash @ [orphan])
               (orphanBlockHashToChildren chain)\<rparr>"

text \<open>
  \<open>processOrphans\<close>. The inner loop ranges over the children of one accepted block: each
  child is deleted from \<open>hashToOrphanBlock\<close>, then tried; the first failure returns.
\<close>

fun processChildren :: "'db ChainEnv \<Rightarrow> Block list \<Rightarrow> 'db BlockChain \<Rightarrow> Block list
    \<Rightarrow> ChainError option \<times> 'db BlockChain \<times> Block list" where
  "processChildren env [] chain acceptedBlocks = (None, chain, acceptedBlocks)"
| "processChildren env (orphan # rest) chain acceptedBlocks =
     (let chain1 = chain\<lparr>hashToOrphanBlock := fmdrop (BlockHash orphan) (hashToOrphanBlock chain)\<rparr>
      in case tryAcceptBlock env orphan (core chain1) of
           (Some err, s) \<Rightarrow> (Some err, chain1\<lparr>core := s\<rparr>, acceptedBlocks)
         | (None, s) \<Rightarrow> processChildren env rest (chain1\<lparr>core := s\<rparr>) (acceptedBlocks @ [orphan]))"

text \<open>The number of blocks in the children map: the outer loop's measure.\<close>

definition poolSize :: "(HashType, Block list) fmap \<Rightarrow> nat" where
  "poolSize m = (\<Sum>h \<in> fmdom' m. length (the (fmlookup m h)))"

lemma processChildren_frame:
  "processChildren env cs chain acc = (r, chain1, acc1) \<Longrightarrow>
     orphanBlockHashToChildren chain1 = orphanBlockHashToChildren chain
     \<and> length acc1 \<le> length acc + length cs \<and> length acc \<le> length acc1"
proof (induction cs arbitrary: chain acc)
  case Nil
  then show ?case by simp
next
  case (Cons orphan rest)
  let ?chain1 = "chain\<lparr>hashToOrphanBlock := fmdrop (BlockHash orphan) (hashToOrphanBlock chain)\<rparr>"
  obtain e s where t: "tryAcceptBlock env orphan (core ?chain1) = (e, s)" by (cases "tryAcceptBlock env orphan (core ?chain1)")
  show ?case
  proof (cases e)
    case None
    with Cons.prems t have "processChildren env rest (?chain1\<lparr>core := s\<rparr>) (acc @ [orphan]) = (r, chain1, acc1)"
      by (simp add: Let_def)
    from Cons.IH[OF this] show ?thesis by simp
  next
    case (Some err)
    with Cons.prems t show ?thesis by (auto simp add: Let_def)
  qed
qed

lemma poolSize_drop:
  "poolSize (fmdrop h m) + length (case fmlookup m h of None \<Rightarrow> [] | Some bs \<Rightarrow> bs) = poolSize m"
proof (cases "fmlookup m h")
  case None
  then have "fmdrop h m = m" by (simp add: fmdrop_idle' fmdom'_notI)
  then show ?thesis using None by simp
next
  case (Some bs)
  then have hin: "h \<in> fmdom' m" by (simp add: fmdom'I)
  have "poolSize m = length (the (fmlookup m h)) + (\<Sum>k \<in> fmdom' m - {h}. length (the (fmlookup m k)))"
    unfolding poolSize_def using hin by (simp add: sum.remove)
  moreover have "(\<Sum>k \<in> fmdom' m - {h}. length (the (fmlookup m k))) = poolSize (fmdrop h m)"
    unfolding poolSize_def by (rule sum.cong) auto
  ultimately show ?thesis using Some by simp
qed

text \<open>
  The outer loop, over the indices of \<open>acceptedBlocks\<close>, which grows while it runs. It
  ends: every round either returns or removes the children of one hash from the map.
\<close>

function processOrphansLoop :: "'db ChainEnv \<Rightarrow> nat \<Rightarrow> Block list \<Rightarrow> 'db BlockChain
    \<Rightarrow> ChainError option \<times> 'db BlockChain" where
  "processOrphansLoop env i acceptedBlocks chain =
     (if i < length acceptedBlocks then
        (let acceptedBlock = acceptedBlocks ! i;
             acceptedBlockHash = BlockHash acceptedBlock;
             childOrphans = childrenOf chain acceptedBlockHash
         in case processChildren env childOrphans chain acceptedBlocks of
              (Some err, chain1, acceptedBlocks1) \<Rightarrow> (Some err, chain1)
            | (None, chain1, acceptedBlocks1) \<Rightarrow>
                processOrphansLoop env (i + 1) acceptedBlocks1
                  (chain1\<lparr>orphanBlockHashToChildren :=
                     fmdrop acceptedBlockHash (orphanBlockHashToChildren chain1)\<rparr>))
      else (None, chain))"
  by pat_completeness auto
termination
proof (relation "measure (\<lambda>(env, i, acceptedBlocks, chain).
          poolSize (orphanBlockHashToChildren chain) + (length acceptedBlocks - i))", goal_cases)
  case 1
  then show ?case by simp
next
  case (2 env i acceptedBlocks chain acceptedBlock h childOrphans r rest chain1 acc1)
  have fr: "orphanBlockHashToChildren chain1 = orphanBlockHashToChildren chain
     \<and> length acc1 \<le> length acceptedBlocks + length childOrphans \<and> length acceptedBlocks \<le> length acc1"
    using 2 processChildren_frame[of env childOrphans chain acceptedBlocks None chain1 acc1] by simp
  have ps: "poolSize (fmdrop h (orphanBlockHashToChildren chain)) + length childOrphans
              = poolSize (orphanBlockHashToChildren chain)"
    using 2 poolSize_drop[of h "orphanBlockHashToChildren chain"] by (simp add: childrenOf_def)
  show ?case using 2(1) fr ps by simp arith
qed

definition processOrphans :: "'db ChainEnv \<Rightarrow> Block \<Rightarrow> 'db BlockChain \<Rightarrow> ChainError option \<times> 'db BlockChain" where
  "processOrphans env block chain = processOrphansLoop env 0 [block] chain"

text \<open>
  \<open>ProcessBlock\<close>, under the chain lock. The result is the error (\<open>None\<close> is \<open>nil\<close>) and
  the chain after the call. \<open>StartSync\<close> and the two goroutines that broadcast the block
  change neither, and are left out.
\<close>

definition ProcessBlock :: "'db ChainEnv \<Rightarrow> Block \<Rightarrow> bool \<Rightarrow> bool \<Rightarrow> string \<Rightarrow> 'db BlockChain
    \<Rightarrow> ChainError option \<times> 'db BlockChain" where
  "ProcessBlock env block broadcast fastConfirm messageFrom chain =
     (let blockHash = BlockHash block in
      if verifyExists env chain blockHash then (Some ErrBlockExists, chain)
      else
        case VerifySign env block of (ok, err) \<Rightarrow>
        if err \<noteq> None \<or> \<not> ok then (Some ErrFailedToVerifyWithConsensus, chain)
        else
          case validateBlock env block of
            Some err \<Rightarrow> (Some err, chain)
          | None \<Rightarrow>
              let prevHash = PrevBlockHash block in
              if \<not> blockExists env (core chain) prevHash then
                (let chain1 = addOrphanBlock block blockHash prevHash chain;
                     height = Height (tail (core chain1))
                 in if height < Height block \<and> messageFrom \<noteq> [] then
                      (if Height block - height < Threshold
                       then (ActiveLightSync env messageFrom, chain1)
                       else (None, chain1))
                    else (None, chain1))
              else
                case tryAcceptBlock env block (core chain) of
                  (Some err, s) \<Rightarrow> (Some err, chain\<lparr>core := s\<rparr>)
                | (None, s) \<Rightarrow>
                    (case processOrphans env block (chain\<lparr>core := s\<rparr>) of
                       (Some err, chain2) \<Rightarrow> (Some err, chain2)
                     | (None, chain2) \<Rightarrow> (None, chain2)))"

text \<open>
  \<open>SetEternal\<close> and \<open>StoreEternalBlock\<close>. \<open>db.Put\<close> returns its error and the storage
  after the call.
\<close>

definition StoreEternalBlock :: "'db ChainEnv \<Rightarrow> Block \<Rightarrow> 'db ChainState \<Rightarrow> ChainError option \<times> 'db ChainState" where
  "StoreEternalBlock env block c =
     (case Marshal env block of
        Inl err \<Rightarrow> (Some err, c)
      | Inr eternalBin \<Rightarrow>
          (case dbPut env (db c) (EternalKey env) eternalBin of
             (err, db') \<Rightarrow> (err, c\<lparr>db := db'\<rparr>)))"

definition SetEternal :: "'db ChainEnv \<Rightarrow> Block \<Rightarrow> 'db ChainState \<Rightarrow> ChainError option \<times> 'db ChainState" where
  "SetEternal env block c =
     (if Height (eternal c) < Height block then
        (case StoreEternalBlock env block c of
           (Some err, c1) \<Rightarrow> (Some err, c1)
         | (None, c1) \<Rightarrow> (None, c1\<lparr>eternal := block\<rparr>))
      else (Some ErrFailedToSetEternal, c))"


declare processOrphansLoop.simps [simp del]

text \<open>
  The state of the outer loop of \<open>processOrphans\<close> after \<open>n\<close> rounds that all succeeded
  (\<open>None\<close> when there are no such \<open>n\<close> rounds): the points of a drain.
\<close>

fun drainAfter :: "'db ChainEnv \<Rightarrow> nat \<Rightarrow> nat \<Rightarrow> Block list \<Rightarrow> 'db BlockChain
    \<Rightarrow> (nat \<times> Block list \<times> 'db BlockChain) option" where
  "drainAfter env 0 i acceptedBlocks chain = Some (i, acceptedBlocks, chain)"
| "drainAfter env (Suc n) i acceptedBlocks chain =
     (if i < length acceptedBlocks then
        (let acceptedBlockHash = BlockHash (acceptedBlocks ! i) in
         case processChildren env (childrenOf chain acceptedBlockHash) chain acceptedBlocks of
           (Some err, chain1, acceptedBlocks1) \<Rightarrow> None
         | (None, chain1, acceptedBlocks1) \<Rightarrow>
             drainAfter env n (i + 1) acceptedBlocks1
               (chain1\<lparr>orphanBlockHashToChildren :=
                  fmdrop acceptedBlockHash (orphanBlockHashToChildren chain1)\<rparr>))
      else None)"

text \<open>
  A chain for the examples: storage is empty, the signature check and validation pass,
  the light sync reports an error, and \<open>tryAcceptBlock\<close> rejects the block of hash 3.
\<close>

definition envExample :: "unit ChainEnv" where
  "envExample = \<lparr>dbGet = (\<lambda>d k. Inr None), dbPut = (\<lambda>d k v. (None, d)),
     BlockKey = (\<lambda>h. []), EternalKey = [0x45], Marshal = (\<lambda>b. Inr []),
     Unmarshal = (\<lambda>bs. Inl (ErrExternal ''unmarshal'')),
     VerifySign = (\<lambda>b. (True, None)), validateBlock = (\<lambda>b. None),
     ActiveLightSync = (\<lambda>p. Some (ErrExternal ''sync'')),
     tryAcceptBlock = (\<lambda>b s. (if BlockHash b = 3 then Some ErrWrongBlockHeight else None, s))\<rparr>"

definition blockExample :: "HashType \<Rightarrow> HashType \<Rightarrow> 32 word \<Rightarrow> Block" where
  "blockExample h p n = \<lparr>BlockHash = h, PrevBlockHash = p, Height = n, Txs = []\<rparr>"

definition stateExample :: "unit ChainState" where
  "stateExample = \<lparr>db = (), genesis = blockExample 100 0 0, tail = blockExample 101 100 1,
      eternal = blockExample 100 0 0, LongestChainHeight = 1,
      cache = [100 \<mapsto> blockExample 100 0 0, 101 \<mapsto> blockExample 101 100 1]\<rparr>"

definition chainExample :: "unit BlockChain" where
  "chainExample = \<lparr>core = stateExample, hashToOrphanBlock = fmempty,
      orphanBlockHashToChildren = fmempty\<rparr>"

text \<open>A pool with three orphans, all children of the block of hash 1.\<close>

definition orphansExample :: "unit BlockChain" where
  "orphansExample = \<lparr>core = stateExample,
      hashToOrphanBlock = fmupd 2 (blockExample 2 1 3) (fmupd 3 (blockExample 3 1 3)
                            (fmupd 4 (blockExample 4 1 3) fmempty)),
      orphanBlockHashToChildren =
        fmupd 1 [blockExample 2 1 3, blockExample 3 1 3, blockExample 4 1 3] fmempty\<rparr>"

section \<open>Properties of the chain engine\<close>

lemma SetEternal_cases:
  "SetEternal env block c = (err, c') \<Longrightarrow>
     (err = None \<longleftrightarrow> Height (eternal c) < Height block \<and> fst (StoreEternalBlock env block c) = None)
     \<and> eternal c' = (if err = None then block else eternal c)
     \<and> (\<not> Height (eternal c) < Height block \<longrightarrow> err = Some ErrFailedToSetEternal \<and> c' = c)"
  by (auto simp add: SetEternal_def StoreEternalBlock_def split: if_splits sum.splits prod.splits option.splits)

text \<open>
  Claim C6. \<open>SetEternal(block)\<close> succeeds, and then the eternal block is \<open>block\<close>, iff
  \<open>block.Height\<close> is strictly greater than the height of the current eternal block and
  storing the block succeeds. Otherwise it returns an error and the eternal block is the
  one before: \<open>ErrFailedToSetEternal\<close> with the whole state unchanged when the height is
  not greater, the error of the storage when persisting fails.
\<close>

theorem SetEternal_advances_only_upwards:
  "(fst (SetEternal env block c) = None
      \<longleftrightarrow> Height (eternal c) < Height block \<and> fst (StoreEternalBlock env block c) = None)
   \<and> eternal (snd (SetEternal env block c))
        = (if fst (SetEternal env block c) = None then block else eternal c)
   \<and> (\<not> Height (eternal c) < Height block \<longrightarrow>
        SetEternal env block c = (Some ErrFailedToSetEternal, c))"
  using SetEternal_cases[of env block c "fst (SetEternal env block c)" "snd (SetEternal env block c)"]
  by (metis prod.collapse)

theorem SetEternal_advances_only_upwards_witness:
  "\<not> Height (eternal stateExample) < Height (blockExample 100 0 0)
   \<and> SetEternal envExample (blockExample 100 0 0) stateExample = (Some ErrFailedToSetEternal, stateExample)
   \<and> Height (eternal stateExample) < Height (blockExample 101 100 1)
   \<and> fst (SetEternal envExample (blockExample 101 100 1) stateExample) = None
   \<and> eternal (snd (SetEternal envExample (blockExample 101 100 1) stateExample)) = blockExample 101 100 1"
  using SetEternal_advances_only_upwards[of envExample "blockExample 100 0 0" stateExample]
    SetEternal_advances_only_upwards[of envExample "blockExample 101 100 1" stateExample]
  by (simp add: stateExample_def blockExample_def envExample_def StoreEternalBlock_def)

text \<open>
  Claim C7, as stated, fails: a block that passes deduplication, the signature check and
  validation, and whose parent is unknown, is added to the orphan maps, but
  \<open>ProcessBlock\<close> then returns the result of \<open>ActiveLightSync\<close> when the sender is known
  and the block is less than 32 above the tail; that result can be an error.
\<close>

theorem ProcessBlock_orphan_returns_sync_error:
  "\<not> verifyExists envExample chainExample (BlockHash (blockExample 7 6 3))
   \<and> VerifySign envExample (blockExample 7 6 3) = (True, None)
   \<and> validateBlock envExample (blockExample 7 6 3) = None
   \<and> \<not> blockExists envExample (core chainExample) (PrevBlockHash (blockExample 7 6 3))
   \<and> fst (ProcessBlock envExample (blockExample 7 6 3) False True ''peer'' chainExample)
       = Some (ErrExternal ''sync'')"
  by (simp add: ProcessBlock_def verifyExists_def blockExists_def isInOrphanPool_def
      LoadBlockByHash_def addOrphanBlock_def childrenOf_def Threshold_def
      envExample_def chainExample_def stateExample_def blockExample_def Let_def)

text \<open>
  Claim C7, amended. For every such block \<open>ProcessBlock\<close> inserts the block into
  \<open>hashToOrphanBlock\<close> under its own hash and appends it to the children of its parent's
  hash in \<open>orphanBlockHashToChildren\<close>, and leaves the rest of the chain as it was. It
  returns \<open>nil\<close>, except when the sender is known, the block is higher than the tail and
  by less than \<open>Threshold\<close>: then it returns what \<open>ActiveLightSync\<close> returns.
\<close>

theorem ProcessBlock_admits_orphan:
  assumes "\<not> verifyExists env chain (BlockHash block)"
    and "VerifySign env block = (True, None)"
    and "validateBlock env block = None"
    and "\<not> blockExists env (core chain) (PrevBlockHash block)"
  shows "\<exists>chain1. ProcessBlock env block broadcast fastConfirm messageFrom chain
           = (if Height (tail (core chain)) < Height block \<and> messageFrom \<noteq> []
                 \<and> Height block - Height (tail (core chain)) < Threshold
              then ActiveLightSync env messageFrom else None, chain1)
         \<and> fmlookup (hashToOrphanBlock chain1) (BlockHash block) = Some block
         \<and> fmlookup (orphanBlockHashToChildren chain1) (PrevBlockHash block)
             = Some (childrenOf chain (PrevBlockHash block) @ [block])
         \<and> core chain1 = core chain"
  using assms
  by (simp add: ProcessBlock_def addOrphanBlock_def Let_def)

theorem ProcessBlock_admits_orphan_witness:
  "\<not> verifyExists envExample chainExample (BlockHash (blockExample 7 6 3))
   \<and> VerifySign envExample (blockExample 7 6 3) = (True, None)
   \<and> validateBlock envExample (blockExample 7 6 3) = None
   \<and> \<not> blockExists envExample (core chainExample) (PrevBlockHash (blockExample 7 6 3))
   \<and> (\<exists>chain1. ProcessBlock envExample (blockExample 7 6 3) False True [] chainExample
                   = (None, chain1)
        \<and> fmlookup (hashToOrphanBlock chain1) (BlockHash (blockExample 7 6 3))
             = Some (blockExample 7 6 3)
        \<and> fmlookup (orphanBlockHashToChildren chain1) (PrevBlockHash (blockExample 7 6 3))
             = Some [blockExample 7 6 3])"
proof -
  have h1: "\<not> verifyExists envExample chainExample (BlockHash (blockExample 7 6 3))"
    by (simp add: verifyExists_def blockExists_def isInOrphanPool_def LoadBlockByHash_def
        envExample_def chainExample_def stateExample_def blockExample_def)
  have h2: "VerifySign envExample (blockExample 7 6 3) = (True, None)"
    by (simp add: envExample_def)
  have h3: "validateBlock envExample (blockExample 7 6 3) = None"
    by (simp add: envExample_def)
  have h4: "\<not> blockExists envExample (core chainExample) (PrevBlockHash (blockExample 7 6 3))"
    by (simp add: blockExists_def LoadBlockByHash_def
        envExample_def chainExample_def stateExample_def blockExample_def)
  have c: "childrenOf chainExample (PrevBlockHash (blockExample 7 6 3)) = []"
    by (simp add: childrenOf_def chainExample_def)
  show ?thesis
    using ProcessBlock_admits_orphan[OF h1 h2 h3 h4, of False True "[]"] h1 h2 h3 h4 c
    by auto
qed


lemma processChildren_append:
  "processChildren env (xs @ ys) chain acc =
     (case processChildren env xs chain acc of
        (Some err, chain1, acc1) \<Rightarrow> (Some err, chain1, acc1)
      | (None, chain1, acc1) \<Rightarrow> processChildren env ys chain1 acc1)"
  by (induction xs arbitrary: chain acc) (auto simp add: Let_def split: prod.splits option.splits)

lemma processChildren_success:
  "processChildren env cs chain acc = (None, chain1, acc1) \<Longrightarrow>
     acc1 = acc @ cs
     \<and> (\<forall>h. fmlookup (hashToOrphanBlock chain1) h
             = (if h \<in> BlockHash ` set cs then None else fmlookup (hashToOrphanBlock chain) h))"
proof (induction cs arbitrary: chain acc)
  case Nil
  then show ?case by simp
next
  case (Cons orphan rest)
  let ?chain1 = "chain\<lparr>hashToOrphanBlock := fmdrop (BlockHash orphan) (hashToOrphanBlock chain)\<rparr>"
  obtain e s where t: "tryAcceptBlock env orphan (core ?chain1) = (e, s)"
    by (cases "tryAcceptBlock env orphan (core ?chain1)")
  from Cons.prems t have e: "e = None" by (cases e) (auto simp add: Let_def)
  with Cons.prems t have
    "processChildren env rest (?chain1\<lparr>core := s\<rparr>) (acc @ [orphan]) = (None, chain1, acc1)"
    by (simp add: Let_def)
  from Cons.IH[OF this] show ?case by auto
qed

lemma drainAfter_loop:
  "drainAfter env n i acc chain = Some (i', acc', chain') \<Longrightarrow>
     processOrphansLoop env i acc chain = processOrphansLoop env i' acc' chain'"
proof (induction n arbitrary: i acc chain)
  case 0
  then show ?case by simp
next
  case (Suc n)
  from Suc.prems have lt: "i < length acc" by (simp split: if_splits)
  obtain r chain1 acc1 where
    pc: "processChildren env (childrenOf chain (BlockHash (acc ! i))) chain acc = (r, chain1, acc1)"
    by (cases "processChildren env (childrenOf chain (BlockHash (acc ! i))) chain acc") auto
  from Suc.prems lt pc have r: "r = None" by (cases r) (auto simp add: Let_def)
  from Suc.prems lt pc r have
    d: "drainAfter env n (i + 1) acc1
          (chain1\<lparr>orphanBlockHashToChildren :=
             fmdrop (BlockHash (acc ! i)) (orphanBlockHashToChildren chain1)\<rparr>)
        = Some (i', acc', chain')"
    by (simp add: Let_def)
  have "processOrphansLoop env i acc chain
      = processOrphansLoop env (i + 1) acc1
          (chain1\<lparr>orphanBlockHashToChildren :=
             fmdrop (BlockHash (acc ! i)) (orphanBlockHashToChildren chain1)\<rparr>)"
    using lt pc r by (subst processOrphansLoop.simps) (simp add: Let_def)
  then show ?case using Suc.IH[OF d] by simp
qed

lemma processOrphansLoop_failure:
  assumes "i < length acceptedBlocks"
    and "childrenOf chain (BlockHash (acceptedBlocks ! i)) = visited @ orphan # remaining"
    and "processChildren env visited chain acceptedBlocks = (None, chain1, acceptedBlocks1)"
    and "tryAcceptBlock env orphan (core chain1) = (Some err, s)"
  shows "processOrphansLoop env i acceptedBlocks chain
       = (Some err, chain1\<lparr>hashToOrphanBlock := fmdrop (BlockHash orphan) (hashToOrphanBlock chain1),
                            core := s\<rparr>)"
proof -
  have "processChildren env (visited @ orphan # remaining) chain acceptedBlocks
      = (Some err, chain1\<lparr>hashToOrphanBlock := fmdrop (BlockHash orphan) (hashToOrphanBlock chain1),
                            core := s\<rparr>, acceptedBlocks1)"
    using assms(3,4) by (simp add: processChildren_append Let_def)
  then show ?thesis using assms(1,2)
    by (subst processOrphansLoop.simps) (simp add: Let_def)
qed

text \<open>
  Claim C9. \<open>ProcessBlock\<close> has accepted the submitted block and drains the orphan pool.
  At some point of the drain the children of the accepted block at hand are
  \<open>visited @ orphan # remaining\<close>; the children in \<open>visited\<close> are accepted and
  \<open>tryAcceptBlock\<close> fails on \<open>orphan\<close> with \<open>err\<close>. Then \<open>processOrphans\<close> returns
  \<open>err\<close>, and so does \<open>ProcessBlock\<close>. The chain state returned is the one the failed
  \<open>tryAcceptBlock\<close> left, so nothing was tried after it; the children map is the one of
  that point of the drain; and \<open>hashToOrphanBlock\<close> has lost exactly the hashes of
  \<open>visited\<close> and of \<open>orphan\<close>.
\<close>

theorem processOrphans_error_is_immediate:
  assumes "\<not> verifyExists env chain (BlockHash block)"
    and "VerifySign env block = (True, None)"
    and "validateBlock env block = None"
    and "blockExists env (core chain) (PrevBlockHash block)"
    and "tryAcceptBlock env block (core chain) = (None, s0)"
    and "drainAfter env n 0 [block] (chain\<lparr>core := s0\<rparr>) = Some (i, acceptedBlocks, chainN)"
    and "i < length acceptedBlocks"
    and "childrenOf chainN (BlockHash (acceptedBlocks ! i)) = visited @ orphan # remaining"
    and "processChildren env visited chainN acceptedBlocks = (None, chain1, acceptedBlocks1)"
    and "tryAcceptBlock env orphan (core chain1) = (Some err, s)"
  shows "\<exists>final. processOrphans env block (chain\<lparr>core := s0\<rparr>) = (Some err, final)
           \<and> ProcessBlock env block broadcast fastConfirm messageFrom chain = (Some err, final)
           \<and> core final = s
           \<and> orphanBlockHashToChildren final = orphanBlockHashToChildren chainN
           \<and> (\<forall>h. fmlookup (hashToOrphanBlock final) h
                 = (if h \<in> BlockHash ` set (visited @ [orphan]) then None
                    else fmlookup (hashToOrphanBlock chainN) h))"
proof -
  let ?final = "chain1\<lparr>hashToOrphanBlock := fmdrop (BlockHash orphan) (hashToOrphanBlock chain1),
                       core := s\<rparr>"
  have loop: "processOrphansLoop env i acceptedBlocks chainN = (Some err, ?final)"
    using processOrphansLoop_failure[OF assms(7-10)] .
  have po: "processOrphans env block (chain\<lparr>core := s0\<rparr>) = (Some err, ?final)"
    using drainAfter_loop[OF assms(6)] loop by (simp add: processOrphans_def)
  have pb: "ProcessBlock env block broadcast fastConfirm messageFrom chain = (Some err, ?final)"
    using assms(1-5) po by (simp add: ProcessBlock_def Let_def)
  have vis: "\<forall>h. fmlookup (hashToOrphanBlock chain1) h
             = (if h \<in> BlockHash ` set visited then None else fmlookup (hashToOrphanBlock chainN) h)"
    using processChildren_success[OF assms(9)] by simp
  have fr: "orphanBlockHashToChildren chain1 = orphanBlockHashToChildren chainN"
    using processChildren_frame[OF assms(9)] by simp
  have del: "\<forall>h. fmlookup (hashToOrphanBlock ?final) h
                 = (if h \<in> BlockHash ` set (visited @ [orphan]) then None
                    else fmlookup (hashToOrphanBlock chainN) h)"
    using vis by auto
  show ?thesis using po pb fr del by (intro exI[of _ ?final]) simp
qed


theorem processOrphans_error_is_immediate_witness:
  "\<not> verifyExists envExample orphansExample (BlockHash (blockExample 1 101 2))
   \<and> blockExists envExample (core orphansExample) (PrevBlockHash (blockExample 1 101 2))
   \<and> tryAcceptBlock envExample (blockExample 1 101 2) (core orphansExample) = (None, stateExample)
   \<and> childrenOf orphansExample (BlockHash (blockExample 1 101 2))
        = [blockExample 2 1 3] @ blockExample 3 1 3 # [blockExample 4 1 3]
   \<and> tryAcceptBlock envExample (blockExample 3 1 3) stateExample = (Some ErrWrongBlockHeight, stateExample)
   \<and> (\<exists>final. ProcessBlock envExample (blockExample 1 101 2) False False [] orphansExample
                  = (Some ErrWrongBlockHeight, final)
         \<and> fmlookup (hashToOrphanBlock final) 2 = None
         \<and> fmlookup (hashToOrphanBlock final) 3 = None
         \<and> fmlookup (hashToOrphanBlock final) 4 = Some (blockExample 4 1 3))"
proof -
  let ?b = "blockExample 1 101 2"
  let ?c0 = "orphansExample\<lparr>core := stateExample\<rparr>"
  let ?c1 = "?c0\<lparr>hashToOrphanBlock := fmdrop 2 (hashToOrphanBlock ?c0)\<rparr>"
  have h1: "\<not> verifyExists envExample orphansExample (BlockHash ?b)"
    by (simp add: verifyExists_def blockExists_def isInOrphanPool_def LoadBlockByHash_def
        envExample_def orphansExample_def stateExample_def blockExample_def)
  have h2: "VerifySign envExample ?b = (True, None)" by (simp add: envExample_def)
  have h3: "validateBlock envExample ?b = None" by (simp add: envExample_def)
  have h4: "blockExists envExample (core orphansExample) (PrevBlockHash ?b)"
    by (simp add: blockExists_def orphansExample_def stateExample_def blockExample_def)
  have h5: "tryAcceptBlock envExample ?b (core orphansExample) = (None, stateExample)"
    by (simp add: envExample_def orphansExample_def blockExample_def)
  have h6: "drainAfter envExample 0 0 [?b] ?c0 = Some (0, [?b], ?c0)" by simp
  have h7: "(0::nat) < length [?b]" by simp
  have h8: "childrenOf ?c0 (BlockHash ([?b] ! 0))
              = [blockExample 2 1 3] @ blockExample 3 1 3 # [blockExample 4 1 3]"
    by (simp add: childrenOf_def orphansExample_def blockExample_def)
  have h9: "processChildren envExample [blockExample 2 1 3] ?c0 [?b]
              = (None, ?c1, [?b, blockExample 2 1 3])"
    by (simp add: envExample_def orphansExample_def blockExample_def)
  have h10: "tryAcceptBlock envExample (blockExample 3 1 3) (core ?c1)
               = (Some ErrWrongBlockHeight, stateExample)"
    by (simp add: envExample_def orphansExample_def blockExample_def)
  from processOrphans_error_is_immediate[OF h1 h2 h3 h4 h5 h6 h7 h8 h9 h10, of False False "[]"]
  obtain final where
    pb: "ProcessBlock envExample ?b False False [] orphansExample = (Some ErrWrongBlockHeight, final)"
    and del: "\<forall>h. fmlookup (hashToOrphanBlock final) h
                 = (if h \<in> BlockHash ` set ([blockExample 2 1 3] @ [blockExample 3 1 3]) then None
                    else fmlookup (hashToOrphanBlock ?c0) h)"
    by blast
  have d2: "fmlookup (hashToOrphanBlock final) 2 = None"
    and d3: "fmlookup (hashToOrphanBlock final) 3 = None"
    and d4: "fmlookup (hashToOrphanBlock final) 4 = Some (blockExample 4 1 3)"
    using del by (simp_all add: blockExample_def orphansExample_def)
  have c: "childrenOf orphansExample (BlockHash ?b)
        = [blockExample 2 1 3] @ blockExample 3 1 3 # [blockExample 4 1 3]"
    by (simp add: childrenOf_def orphansExample_def blockExample_def)
  have t3: "tryAcceptBlock envExample (blockExample 3 1 3) stateExample
              = (Some ErrWrongBlockHeight, stateExample)"
    by (simp add: envExample_def blockExample_def)
  show ?thesis using h1 h4 h5 c t3 pb d2 d3 d4 by blast
qed

section \<open>Connecting a block to the main chain (tryConnectBlockToMainChain)\<close>

text \<open>
  The utxo set and what works on it are not among the sources and are parameters:
  \<open>LoadBlockUtxos\<close> builds the utxo set of the block from storage,
  \<open>validateBlockScripts\<close> and \<open>ValidateTxInputs\<close> read it, \<open>CalcBlockSubsidy\<close> is the
  subsidy of a height. \<open>applyBlock\<close> and \<open>SetTailBlock\<close>, which run after the checks,
  are transformers of the chain state. Fees, values and the subsidy are \<open>uint64\<close>,
  heights \<open>uint32\<close>.
\<close>

record ('db, 'u) ConnectEnv =
  LoadBlockUtxos :: "Block \<Rightarrow> 'db \<Rightarrow> ChainError + 'u"
  validateBlockScripts :: "'u \<Rightarrow> Block \<Rightarrow> ChainError option"
  ValidateTxInputs :: "'u \<Rightarrow> Transaction \<Rightarrow> 32 word \<Rightarrow> ChainError + 64 word"
  CalcBlockSubsidy :: "32 word \<Rightarrow> 64 word"
  applyBlock :: "Block \<Rightarrow> 'u \<Rightarrow> 'db ChainState \<Rightarrow> ChainError option \<times> 'db ChainState"
  SetTailBlock :: "Block \<Rightarrow> 'db ChainState \<Rightarrow> ChainError option \<times> 'db ChainState"

text \<open>
  The loop over the transactions: each fee is added to \<open>totalFees\<close>, and a sum that is
  smaller than the sum before it has wrapped.
\<close>

fun accumulateFees :: "('db, 'u) ConnectEnv \<Rightarrow> 'u \<Rightarrow> 32 word \<Rightarrow> Transaction list \<Rightarrow> 64 word
    \<Rightarrow> ChainError + 64 word" where
  "accumulateFees cenv utxoSet height [] totalFees = Inr totalFees"
| "accumulateFees cenv utxoSet height (tx # txs) totalFees =
     (case ValidateTxInputs cenv utxoSet tx height of
        Inl err \<Rightarrow> Inl err
      | Inr txFee \<Rightarrow>
          (let lastTotalFees = totalFees; totalFees' = totalFees + txFee
           in if totalFees' < lastTotalFees then Inl ErrBadFees
              else accumulateFees cenv utxoSet height txs totalFees'))"

text \<open>The sum of the values of the outputs, in \<open>uint64\<close>, as the second loop adds them.\<close>

definition totalOutput :: "TxOut list \<Rightarrow> 64 word" where
  "totalOutput vout = foldl (\<lambda>total txOut. total + Value txOut) 0 vout"

text \<open>
  The outer \<open>None\<close> is the runtime panic of \<open>transactions[0]\<close> on a block without
  transactions.
\<close>

definition tryConnectBlockToMainChain :: "('db, 'u) ConnectEnv \<Rightarrow> Block \<Rightarrow> 'db ChainState
    \<Rightarrow> (ChainError option \<times> 'db ChainState) option" where
  "tryConnectBlockToMainChain cenv block c =
     (case LoadBlockUtxos cenv block (db c) of
        Inl err \<Rightarrow> Some (Some err, c)
      | Inr utxoSet \<Rightarrow>
          (case validateBlockScripts cenv utxoSet block of
             Some err \<Rightarrow> Some (Some err, c)
           | None \<Rightarrow>
               (case accumulateFees cenv utxoSet (Height block) (Txs block) 0 of
                  Inl err \<Rightarrow> Some (Some err, c)
                | Inr totalFees \<Rightarrow>
                    (case Txs block of
                       [] \<Rightarrow> None
                     | coinbase # others \<Rightarrow>
                         (let totalCoinbaseOutput = totalOutput (Vout coinbase);
                              expectedCoinbaseOutput = CalcBlockSubsidy cenv (Height block) + totalFees
                          in if totalCoinbaseOutput > expectedCoinbaseOutput
                             then Some (Some ErrBadCoinbaseValue, c)
                             else
                               (case applyBlock cenv block utxoSet c of
                                  (Some err, c1) \<Rightarrow> Some (Some err, c1)
                                | (None, c1) \<Rightarrow>
                                    (case SetTailBlock cenv block c1 of
                                       (Some err, c2) \<Rightarrow> Some (Some err, c2)
                                     | (None, c2) \<Rightarrow> Some (None, c2))))))))"

text \<open>The same sums as natural numbers, without wrap-around.\<close>

definition sumFees :: "64 word list \<Rightarrow> nat" where
  "sumFees fs = sum_list (map unat fs)"

definition sumValues :: "TxOut list \<Rightarrow> nat" where
  "sumValues vout = sum_list (map (\<lambda>txOut. unat (Value txOut)) vout)"

text \<open>
  Examples: the fee of a transaction is 0 without inputs, 10 with one input and
  \<open>2^64 - 1\<close> with more; the subsidy is 50.
\<close>

definition txExampleWith :: "nat list \<Rightarrow> 64 word list \<Rightarrow> Transaction" where
  "txExampleWith ins vs = \<lparr>Version = 1, Vin = ins,
                           Vout = map (\<lambda>v. \<lparr>Value = v, ScriptPubKey = []\<rparr>) vs, LockTime = 0\<rparr>"

definition connectExample :: "(unit, unit) ConnectEnv" where
  "connectExample = \<lparr>LoadBlockUtxos = (\<lambda>b d. Inr ()), validateBlockScripts = (\<lambda>u b. None),
     ValidateTxInputs = (\<lambda>u tx h. Inr (if Vin tx = [] then 0
                                        else if length (Vin tx) = 1 then 10
                                        else 0xFFFFFFFFFFFFFFFF)),
     CalcBlockSubsidy = (\<lambda>h. 50),
     applyBlock = (\<lambda>b u c. (None, c)), SetTailBlock = (\<lambda>b c. (None, c))\<rparr>"

definition blockWrappingFees :: Block where
  "blockWrappingFees = \<lparr>BlockHash = 102, PrevBlockHash = 101, Height = 2,
     Txs = [txExampleWith [] [50], txExampleWith [0] [1], txExampleWith [0, 1] [1]]\<rparr>"

text \<open>
  A block at height 2 with the coinbase alone, which pays \<open>2^64 - 1\<close> and 2.
\<close>

definition blockCoinbaseWraps :: Block where
  "blockCoinbaseWraps = \<lparr>BlockHash = 102, PrevBlockHash = 101, Height = 2,
     Txs = [txExampleWith [] [0xFFFFFFFFFFFFFFFF, 2]]\<rparr>"

section \<open>Properties of connecting a block\<close>

lemma u64_add_wraps: "(a + b < a) = (2 ^ 64 \<le> unat a + unat b)" for a b :: "64 word"
  using no_olen_add_nat[of a b] by (auto simp add: not_le not_less)

lemma accumulateFees_append:
  "accumulateFees cenv u h (xs @ ys) acc =
     (case accumulateFees cenv u h xs acc of
        Inl err \<Rightarrow> Inl err
      | Inr t \<Rightarrow> accumulateFees cenv u h ys t)"
  by (induction xs arbitrary: acc) (auto simp add: Let_def split: sum.splits)

lemma accumulateFees_sum:
  assumes "map (\<lambda>t. ValidateTxInputs cenv u t h) txs = map Inr fs"
    and "unat acc + sumFees fs < 2 ^ 64"
  shows "accumulateFees cenv u h txs acc = Inr (acc + word_of_nat (sumFees fs))"
  using assms
proof (induction txs arbitrary: fs acc)
  case Nil
  then show ?case by (simp add: sumFees_def)
next
  case (Cons tx txs)
  then obtain f fs' where fs: "fs = f # fs'" by (cases fs) auto
  from Cons.prems fs have v: "ValidateTxInputs cenv u tx h = Inr f"
    and m: "map (\<lambda>t. ValidateTxInputs cenv u t h) txs = map Inr fs'" by auto
  from Cons.prems(2) fs have b: "unat acc + unat f + sumFees fs' < 2 ^ 64"
    by (simp add: sumFees_def)
  then have nw: "\<not> (acc + f < acc)" by (simp add: u64_add_wraps)
  have ua: "unat (acc + f) = unat acc + unat f"
    using b by (simp add: unat_word_ariths)
  have "accumulateFees cenv u h txs (acc + f) = Inr (acc + f + word_of_nat (sumFees fs'))"
    using Cons.IH[OF m, of "acc + f"] b ua by simp
  then show ?case using v nw fs by (simp add: Let_def sumFees_def)
qed

lemma totalOutput_sum: "foldl (\<lambda>total txOut. total + Value txOut) a vout = a + word_of_nat (sumValues vout)"
  by (induction vout arbitrary: a) (simp_all add: sumValues_def)


lemma tryConnect_bad_fees:
  assumes "LoadBlockUtxos cenv block (db c) = Inr utxoSet"
    and "validateBlockScripts cenv utxoSet block = None"
    and "Txs block = pre @ tx # post"
    and "map (\<lambda>t. ValidateTxInputs cenv utxoSet t (Height block)) pre = map Inr fs"
    and "ValidateTxInputs cenv utxoSet tx (Height block) = Inr f"
    and "sumFees fs < 2 ^ 64"
    and "2 ^ 64 \<le> sumFees fs + unat f"
  shows "tryConnectBlockToMainChain cenv block c = Some (Some ErrBadFees, c)"
proof -
  have p: "accumulateFees cenv utxoSet (Height block) pre 0 = Inr (word_of_nat (sumFees fs))"
    using accumulateFees_sum[OF assms(4), of 0] assms(6) by simp
  have u: "unat (word_of_nat (sumFees fs) :: 64 word) = sumFees fs"
    using assms(6) by (simp add: unat_of_nat)
  have w: "(word_of_nat (sumFees fs) :: 64 word) + f < word_of_nat (sumFees fs)"
    using assms(7) u by (simp add: u64_add_wraps)
  have "accumulateFees cenv utxoSet (Height block) (pre @ tx # post) 0 = Inl ErrBadFees"
    using p w assms(5) by (simp add: accumulateFees_append Let_def)
  then show ?thesis using assms(1-3) by (simp add: tryConnectBlockToMainChain_def)
qed

lemma tryConnect_bad_coinbase:
  assumes "LoadBlockUtxos cenv block (db c) = Inr utxoSet"
    and "validateBlockScripts cenv utxoSet block = None"
    and "Txs block = coinbase # others"
    and "map (\<lambda>t. ValidateTxInputs cenv utxoSet t (Height block)) (Txs block) = map Inr fs"
    and "sumFees fs < 2 ^ 64"
    and "CalcBlockSubsidy cenv (Height block) + word_of_nat (sumFees fs) < totalOutput (Vout coinbase)"
  shows "tryConnectBlockToMainChain cenv block c = Some (Some ErrBadCoinbaseValue, c)"
proof -
  have p: "accumulateFees cenv utxoSet (Height block) (Txs block) 0 = Inr (word_of_nat (sumFees fs))"
    using accumulateFees_sum[OF assms(4), of 0] assms(5) by simp
  show ?thesis using assms(1-3,6) p by (simp add: tryConnectBlockToMainChain_def Let_def)
qed

lemma coinbase_excess_in_u64:
  assumes "sumValues vout < 2 ^ 64"
    and "unat subsidy + sumFees fs < 2 ^ 64"
    and "unat subsidy + sumFees fs < sumValues vout"
  shows "(subsidy :: 64 word) + word_of_nat (sumFees fs) < totalOutput vout"
proof -
  have t: "unat (totalOutput vout) = sumValues vout"
    using assms(1) totalOutput_sum[of 0 vout] by (simp add: totalOutput_def unat_of_nat)
  have f: "unat (word_of_nat (sumFees fs) :: 64 word) = sumFees fs"
    using assms(2) by (simp add: unat_of_nat)
  have e: "unat (subsidy + word_of_nat (sumFees fs)) = unat subsidy + sumFees fs"
    using assms(2) f by (simp add: unat_word_ariths)
  show ?thesis using t e assms(3) by (simp add: word_less_nat_alt)
qed

text \<open>
  The fee loop at work: the fees 0, 10 and \<open>2^64 - 1\<close> wrap at the third transaction.
\<close>

lemma fee_wrap_example:
  "tryConnectBlockToMainChain connectExample blockWrappingFees stateExample
     = Some (Some ErrBadFees, stateExample)"
proof -
  have l: "LoadBlockUtxos connectExample blockWrappingFees (db stateExample) = Inr ()"
    by (simp add: connectExample_def)
  have v: "validateBlockScripts connectExample () blockWrappingFees = None"
    by (simp add: connectExample_def)
  have a1: "Txs blockWrappingFees
              = [txExampleWith [] [50], txExampleWith [0] [1]] @ txExampleWith [0, 1] [1] # []"
    by (simp add: blockWrappingFees_def)
  have a2: "map (\<lambda>t. ValidateTxInputs connectExample () t (Height blockWrappingFees))
              [txExampleWith [] [50], txExampleWith [0] [1]] = map Inr [0, 10]"
    by (simp add: connectExample_def txExampleWith_def)
  have a3: "ValidateTxInputs connectExample () (txExampleWith [0, 1] [1]) (Height blockWrappingFees)
              = Inr 0xFFFFFFFFFFFFFFFF"
    by (simp add: connectExample_def txExampleWith_def)
  have a4: "sumFees [0, 10] < 2 ^ 64" by (simp add: sumFees_def)
  have a5: "2 ^ 64 \<le> sumFees [0, 10] + unat (0xFFFFFFFFFFFFFFFF :: 64 word)"
    by (simp add: sumFees_def)
  show ?thesis using tryConnect_bad_fees[OF l v a1 a2 a3 a4 a5] .
qed

text \<open>
  Claim C3. The sum of the coinbase outputs is not checked for wrap-around, unlike the
  sum of the fees (\<open>tryConnect_bad_fees\<close>), and a coinbase that pays more than the
  subsidy plus the fees is connected. In \<open>blockCoinbaseWraps\<close> the coinbase is the only
  transaction and its fee is 0; the subsidy of the height is 50. The outputs \<open>2^64 - 1\<close>
  and 2 sum to \<open>2^64 + 1\<close>, which exceeds 50, but \<open>totalCoinbaseOutput\<close> is the \<open>uint64\<close>
  sum 1: \<open>tryConnectBlockToMainChain\<close> does not return \<open>ErrBadCoinbaseValue\<close>, it
  applies the block and returns \<open>nil\<close>.
\<close>

theorem tryConnectBlockToMainChain_connects_overpaying_coinbase:
  "Txs blockCoinbaseWraps = [txExampleWith [] [0xFFFFFFFFFFFFFFFF, 2]]
   \<and> map (\<lambda>t. ValidateTxInputs connectExample () t (Height blockCoinbaseWraps))
        (Txs blockCoinbaseWraps) = map Inr [0]
   \<and> unat (CalcBlockSubsidy connectExample (Height blockCoinbaseWraps)) + sumFees [0] = 50
   \<and> sumValues (Vout (txExampleWith [] [0xFFFFFFFFFFFFFFFF, 2])) = 2 ^ 64 + 1
   \<and> totalOutput (Vout (txExampleWith [] [0xFFFFFFFFFFFFFFFF, 2])) = 1
   \<and> tryConnectBlockToMainChain connectExample blockCoinbaseWraps stateExample
        = Some (None, stateExample)"
proof -
  have t: "Txs blockCoinbaseWraps = [txExampleWith [] [0xFFFFFFFFFFFFFFFF, 2]]"
    by (simp add: blockCoinbaseWraps_def)
  have f: "map (\<lambda>t. ValidateTxInputs connectExample () t (Height blockCoinbaseWraps))
        (Txs blockCoinbaseWraps) = map Inr [0]"
    by (simp add: connectExample_def txExampleWith_def blockCoinbaseWraps_def)
  have e: "unat (CalcBlockSubsidy connectExample (Height blockCoinbaseWraps)) + sumFees [0] = 50"
    by (simp add: connectExample_def sumFees_def)
  have s: "sumValues (Vout (txExampleWith [] [0xFFFFFFFFFFFFFFFF, 2])) = 2 ^ 64 + 1"
    by (simp add: sumValues_def txExampleWith_def)
  have w: "totalOutput (Vout (txExampleWith [] [0xFFFFFFFFFFFFFFFF, 2])) = 1"
    by (simp add: totalOutput_def txExampleWith_def)
  have a: "accumulateFees connectExample () 2 [txExampleWith [] [0xFFFFFFFFFFFFFFFF, 2]] 0
             = Inr 0"
    by (simp add: connectExample_def txExampleWith_def Let_def)
  have c: "tryConnectBlockToMainChain connectExample blockCoinbaseWraps stateExample
        = Some (None, stateExample)"
    using a w
    by (simp add: tryConnectBlockToMainChain_def blockCoinbaseWraps_def Let_def
        connectExample_def word_le_nat_alt word_less_nat_alt)
  show ?thesis using t f e s w c by simp
qed

section \<open>The bloom filter of a block (GetFilterForTransactionScript)\<close>

text \<open>
  Modelled from the spec: \<open>UtxoWrap\<close> has the fields of the spec's data model; its
  \<open>Output\<close> is a pointer and may be \<open>nil\<close>. The package \<open>bloom\<close> is not among the
  sources: a filter is represented by the two arguments of \<open>NewFilter\<close> and by the byte
  strings given to \<open>Add\<close>, in the order of the calls. The rate is the constant \<open>0.0001\<close>
  of the source, a real number here. The token predicates of the script package and
  \<open>P2PKHScriptPrefix\<close> are parameters.
\<close>

record UtxoWrap =
  Output :: "TxOut option"
  BlockHeight :: "32 word"
  IsCoinBase :: bool
  IsSpent :: bool
  IsModified :: bool

record Filter =
  capacity :: "32 word"
  fpRate :: real
  added :: "byte list list"

definition NewFilter :: "32 word \<Rightarrow> real \<Rightarrow> Filter" where
  "NewFilter n rate = \<lparr>capacity = n, fpRate = rate, added = []\<rparr>"

definition Add :: "Filter \<Rightarrow> byte list \<Rightarrow> Filter" where
  "Add filter' bs = filter'\<lparr>added := added filter' @ [bs]\<rparr>"

record TokenScripts =
  IsTokenIssue :: "Script \<Rightarrow> bool"
  IsTokenTransfer :: "Script \<Rightarrow> bool"
  P2PKHScriptPrefix :: "Script \<Rightarrow> Script"

text \<open>
  \<open>utxoUsed\<close> is a Go map from outpoints to pointers; it is given by its entries, in the
  order in which the \<open>range\<close> statement visits them, which is any order.
\<close>

definition GetFilterForTransactionScript :: "TokenScripts \<Rightarrow> Block \<Rightarrow> (OutPoint \<times> UtxoWrap option) list \<Rightarrow> Filter" where
  "GetFilterForTransactionScript ts block utxoUsed =
     (let vout = concat (map (\<lambda>tx. map ScriptPubKey (Vout tx)) (Txs block));
          vin = concat (map (\<lambda>(outPoint, utxo).
                   (case utxo of
                      None \<Rightarrow> []
                    | Some u \<Rightarrow> (case Output u of None \<Rightarrow> [] | Some out \<Rightarrow> [ScriptPubKey out])))
                 utxoUsed);
          filter' = NewFilter (word_of_nat (length vin + length vout + 1)) (1 / 10000);
          filter1 = foldl Add filter' vin
      in foldl (\<lambda>f scriptBytes.
                  Add f (if IsTokenIssue ts scriptBytes \<or> IsTokenTransfer ts scriptBytes
                         then P2PKHScriptPrefix ts scriptBytes else scriptBytes))
           filter1 vout)"

text \<open>
  The outputs that \<open>utxoUsed\<close> holds (entries without object or without output are
  skipped), the outputs the block creates, and the byte string a created output
  contributes to the filter.
\<close>

definition heldOutputs :: "(OutPoint \<times> UtxoWrap option) list \<Rightarrow> TxOut list" where
  "heldOutputs utxoUsed =
     concat (map (\<lambda>entry. case snd entry of None \<Rightarrow> [] | Some u \<Rightarrow> (case Output u of None \<Rightarrow> [] | Some out \<Rightarrow> [out])) utxoUsed)"

definition createdOutputs :: "Block \<Rightarrow> TxOut list" where
  "createdOutputs block = concat (map Vout (Txs block))"

definition filterElement :: "TokenScripts \<Rightarrow> TxOut \<Rightarrow> byte list" where
  "filterElement ts out =
     (if IsTokenIssue ts (ScriptPubKey out) \<or> IsTokenTransfer ts (ScriptPubKey out)
      then P2PKHScriptPrefix ts (ScriptPubKey out) else ScriptPubKey out)"

subsection \<open>The utxo set that applyBlock passes to the filter\<close>

text \<open>
  Modelled from the spec: the type \<open>UtxoSet\<close> and its methods are not among the sources.
  Its field \<open>utxoMap\<close>, which the sources read, is a Go map from outpoints to pointers to
  \<open>UtxoWrap\<close>; it is given by its entries, one for each key, a new key being entered
  last. \<open>FindUtxo\<close> is the entry of an outpoint, \<open>nil\<close> when there is none.
\<close>

type_synonym UtxoMap = "(OutPoint \<times> UtxoWrap option) list"

definition FindUtxo :: "UtxoMap \<Rightarrow> OutPoint \<Rightarrow> UtxoWrap option" where
  "FindUtxo utxoMap outPoint =
     (case map_of utxoMap outPoint of None \<Rightarrow> None | Some utxo \<Rightarrow> utxo)"

text \<open>
  Modelled from the spec: the assignment \<open>utxoMap[outPoint] = utxo\<close> of the methods
  below, which replaces the entry of a key that is present and enters a new key.
\<close>

definition putUtxo :: "OutPoint \<Rightarrow> UtxoWrap \<Rightarrow> UtxoMap \<Rightarrow> UtxoMap" where
  "putUtxo outPoint utxo utxoMap =
     (case map_of utxoMap outPoint of
        None \<Rightarrow> utxoMap @ [(outPoint, Some utxo)]
      | Some old \<Rightarrow> map (\<lambda>entry. if fst entry = outPoint then (outPoint, Some utxo) else entry)
                     utxoMap)"

text \<open>
  Modelled from the spec: \<open>add_utxo(tx, index, height)\<close> creates a fresh \<open>UtxoWrap\<close> for
  \<open>tx.vout[index]\<close> and fails if the outpoint is already present and unspent. The
  outpoint is the hash of the transaction, a parameter, with the index.
\<close>

definition AddUtxo :: "(Transaction \<Rightarrow> HashType) \<Rightarrow> bool \<Rightarrow> Transaction \<Rightarrow> nat \<Rightarrow> 32 word \<Rightarrow> UtxoMap
    \<Rightarrow> ChainError + UtxoMap" where
  "AddUtxo txHash coinbase tx index height utxoMap =
     (let outPoint = \<lparr>OutPointHash = txHash tx, OutPointIndex = word_of_nat index\<rparr>;
          fresh = \<lparr>Output = Some (Vout tx ! index), BlockHeight = height,
                   IsCoinBase = coinbase, IsSpent = False, IsModified = True\<rparr>
      in case FindUtxo utxoMap outPoint of
           None \<Rightarrow> Inr (putUtxo outPoint fresh utxoMap)
         | Some utxo \<Rightarrow>
             if \<not> IsSpent utxo then Inl (ErrExternal ''add existing utxo'')
             else Inr (putUtxo outPoint fresh utxoMap))"

text \<open>
  Modelled from the spec: \<open>spend_utxo(outpoint)\<close> sets \<open>is_spent\<close> on an existing unspent
  entry, which stays in the map, and fails if the entry is absent or already spent.
\<close>

definition SpendUtxo :: "OutPoint \<Rightarrow> UtxoMap \<Rightarrow> ChainError + UtxoMap" where
  "SpendUtxo outPoint utxoMap =
     (case FindUtxo utxoMap outPoint of
        None \<Rightarrow> Inl (ErrExternal ''utxo not found'')
      | Some utxo \<Rightarrow>
          if IsSpent utxo then Inl (ErrExternal ''utxo already spent'')
          else Inr (putUtxo outPoint (utxo\<lparr>IsSpent := True, IsModified := True\<rparr>) utxoMap))"

text \<open>
  Modelled from the spec: \<open>apply_block(block)\<close>, for each transaction, the coinbase first,
  spends every input's referenced outpoint (the coinbase, the first transaction, is
  exempted), then adds every output. The inputs are read through their pointers; \<open>None\<close>
  is the runtime panic of a \<open>nil\<close> input.
\<close>

fun spendInputs :: "TxInHeap \<Rightarrow> nat list \<Rightarrow> UtxoMap \<Rightarrow> (ChainError + UtxoMap) option" where
  "spendInputs heap [] utxoMap = Some (Inr utxoMap)"
| "spendInputs heap (p # ps) utxoMap =
     (case heap p of
        None \<Rightarrow> None
      | Some txIn \<Rightarrow>
          (case SpendUtxo (PrevOutPoint txIn) utxoMap of
             Inl err \<Rightarrow> Some (Inl err)
           | Inr utxoMap' \<Rightarrow> spendInputs heap ps utxoMap'))"

fun addOutputs :: "(Transaction \<Rightarrow> HashType) \<Rightarrow> bool \<Rightarrow> Transaction \<Rightarrow> 32 word \<Rightarrow> nat \<Rightarrow> TxOut list
    \<Rightarrow> UtxoMap \<Rightarrow> ChainError + UtxoMap" where
  "addOutputs txHash coinbase tx height index [] utxoMap = Inr utxoMap"
| "addOutputs txHash coinbase tx height index (out # outs) utxoMap =
     (case AddUtxo txHash coinbase tx index height utxoMap of
        Inl err \<Rightarrow> Inl err
      | Inr utxoMap' \<Rightarrow> addOutputs txHash coinbase tx height (index + 1) outs utxoMap')"

fun applyTxs :: "(Transaction \<Rightarrow> HashType) \<Rightarrow> TxInHeap \<Rightarrow> 32 word \<Rightarrow> bool \<Rightarrow> Transaction list
    \<Rightarrow> UtxoMap \<Rightarrow> (ChainError + UtxoMap) option" where
  "applyTxs txHash heap height coinbase [] utxoMap = Some (Inr utxoMap)"
| "applyTxs txHash heap height coinbase (tx # txs) utxoMap =
     (case (if coinbase then Some (Inr utxoMap) else spendInputs heap (Vin tx) utxoMap) of
        None \<Rightarrow> None
      | Some (Inl err) \<Rightarrow> Some (Inl err)
      | Some (Inr spent) \<Rightarrow>
          (case addOutputs txHash coinbase tx height 0 (Vout tx) spent of
             Inl err \<Rightarrow> Some (Inl err)
           | Inr utxoMap' \<Rightarrow> applyTxs txHash heap height False txs utxoMap'))"

definition ApplyBlock :: "(Transaction \<Rightarrow> HashType) \<Rightarrow> TxInHeap \<Rightarrow> Block \<Rightarrow> UtxoMap
    \<Rightarrow> (ChainError + UtxoMap) option" where
  "ApplyBlock txHash heap block utxoMap =
     applyTxs txHash heap (Height block) True (Txs block) utxoMap"

text \<open>
  \<open>applyBlock\<close> as far as the filter: \<open>utxoSet.ApplyBlock(block)\<close> runs on the utxo set
  loaded for the block, an error of it is returned, and then the filter registered for
  the block is \<open>GetFilterForTransactionScript(block, utxoSet.utxoMap)\<close>, on the map as
  \<open>ApplyBlock\<close> left it. The two steps between, \<open>WriteUtxoSetToDB\<close> and
  \<open>StoreBlockToDb\<close>, write to storage and are taken to succeed.
\<close>

definition applyBlockFilter :: "TokenScripts \<Rightarrow> (Transaction \<Rightarrow> HashType) \<Rightarrow> TxInHeap \<Rightarrow> Block
    \<Rightarrow> UtxoMap \<Rightarrow> (ChainError + Filter) option" where
  "applyBlockFilter ts txHash heap block utxoMap =
     (case ApplyBlock txHash heap block utxoMap of
        None \<Rightarrow> None
      | Some (Inl err) \<Rightarrow> Some (Inl err)
      | Some (Inr utxoMap') \<Rightarrow> Some (Inr (GetFilterForTransactionScript ts block utxoMap')))"

text \<open>
  The words of the specification: the outputs referenced by the block's inputs are the
  outputs at the outpoints that the inputs of its transactions name, the coinbase having
  no real input. They are looked up in the utxo set loaded for the block.
\<close>

definition specReferencedOutputs :: "TxInHeap \<Rightarrow> Block \<Rightarrow> UtxoMap \<Rightarrow> TxOut list" where
  "specReferencedOutputs heap block utxoMap =
     concat (map (\<lambda>p. case heap p of
                         None \<Rightarrow> []
                       | Some txIn \<Rightarrow>
                           (case FindUtxo utxoMap (PrevOutPoint txIn) of
                              None \<Rightarrow> []
                            | Some utxo \<Rightarrow> (case Output utxo of None \<Rightarrow> [] | Some out \<Rightarrow> [out])))
               (concat (map Vin (tl (Txs block)))))"

text \<open>
  An example: scripts that end in \<open>c0\<close> are token issues, with a two-byte prefix. The
  block at height 2 has a coinbase, whose input names no outpoint of a transaction and
  which pays to the script \<open>52\<close>, and a transaction whose one input spends the output 0
  of the transaction of hash 9, of script \<open>51\<close>, and which issues a token with the
  script \<open>76 a9 01 c0\<close>. The utxo set loaded for the block holds the output to spend.
\<close>

definition tokensExample :: TokenScripts where
  "tokensExample = \<lparr>IsTokenIssue = (\<lambda>s. s \<noteq> [] \<and> last s = 0xc0),
     IsTokenTransfer = (\<lambda>s. False), P2PKHScriptPrefix = take 2\<rparr>"

definition inputsExample :: TxInHeap where
  "inputsExample = [0 \<mapsto> \<lparr>PrevOutPoint = \<lparr>OutPointHash = 9, OutPointIndex = 0\<rparr>,
                            ScriptSig = Some [0x01, 0xaa], Sequence = 0\<rparr>,
                    1 \<mapsto> \<lparr>PrevOutPoint = \<lparr>OutPointHash = 0, OutPointIndex = 0xFFFFFFFF\<rparr>,
                            ScriptSig = None, Sequence = 0\<rparr>]"

definition blockWithToken :: Block where
  "blockWithToken = \<lparr>BlockHash = 102, PrevBlockHash = 101, Height = 2,
     Txs = [\<lparr>Version = 1, Vin = [1], Vout = [\<lparr>Value = 50, ScriptPubKey = [0x52]\<rparr>],
             LockTime = 0\<rparr>,
            \<lparr>Version = 1, Vin = [0],
             Vout = [\<lparr>Value = 0, ScriptPubKey = [0x76, 0xa9, 0x01, 0xc0]\<rparr>],
             LockTime = 0\<rparr>]\<rparr>"

definition txHashExample :: "Transaction \<Rightarrow> HashType" where
  "txHashExample tx = (if Vin tx = [1] then 11 else 12)"

definition utxoLoadedExample :: UtxoMap where
  "utxoLoadedExample =
     [(\<lparr>OutPointHash = 9, OutPointIndex = 0\<rparr>,
       Some \<lparr>Output = Some \<lparr>Value = 7, ScriptPubKey = [0x51]\<rparr>, BlockHeight = 1,
              IsCoinBase = False, IsSpent = False, IsModified = False\<rparr>)]"

section \<open>Properties of the bloom filter of a block\<close>

lemma foldl_Add: "foldl (\<lambda>f x. Add f (g x)) filter' xs
   = filter'\<lparr>added := added filter' @ map g xs\<rparr>"
  by (induction xs arbitrary: filter') (simp_all add: Add_def)

lemma foldl_Add_plain: "foldl Add filter' xs = filter'\<lparr>added := added filter' @ xs\<rparr>"
  using foldl_Add[of "\<lambda>x. x" filter' xs] by simp

lemma vin_scripts:
  "concat (map (\<lambda>(outPoint, utxo).
                   (case utxo of
                      None \<Rightarrow> []
                    | Some u \<Rightarrow> (case Output u of None \<Rightarrow> [] | Some out \<Rightarrow> [ScriptPubKey out])))
                 utxoUsed) = map ScriptPubKey (heldOutputs utxoUsed)"
  by (induction utxoUsed) (auto simp add: heldOutputs_def split: option.splits)

lemma vout_scripts:
  "concat (map (\<lambda>tx. map ScriptPubKey (Vout tx)) txs) = map ScriptPubKey (concat (map Vout txs))"
  by (induction txs) simp_all

text \<open>
  What \<open>GetFilterForTransactionScript\<close> does with its two arguments: the capacity counts
  the outputs held by \<open>utxoUsed\<close> and the outputs the block creates, plus one; the byte
  strings added are the script of every output held by \<open>utxoUsed\<close>, in full, and then for
  every created output its script, or the prefix of a token script.
\<close>

lemma GetFilterForTransactionScript_adds:
  "capacity (GetFilterForTransactionScript ts block utxoUsed)
     = word_of_nat (length (heldOutputs utxoUsed) + length (createdOutputs block) + 1)
   \<and> fpRate (GetFilterForTransactionScript ts block utxoUsed) = 1 / 10 ^ 4
   \<and> added (GetFilterForTransactionScript ts block utxoUsed)
       = map ScriptPubKey (heldOutputs utxoUsed)
         @ map (filterElement ts) (createdOutputs block)"
proof -
  let ?n = "length (heldOutputs utxoUsed) + length (createdOutputs block) + 1"
  have c: "capacity (GetFilterForTransactionScript ts block utxoUsed) = word_of_nat ?n"
    by (simp add: GetFilterForTransactionScript_def Let_def foldl_Add foldl_Add_plain
        NewFilter_def vin_scripts vout_scripts createdOutputs_def)
  have r: "fpRate (GetFilterForTransactionScript ts block utxoUsed) = 1 / 10 ^ 4"
    by (simp add: GetFilterForTransactionScript_def Let_def foldl_Add foldl_Add_plain
        NewFilter_def)
  have a: "added (GetFilterForTransactionScript ts block utxoUsed)
       = map ScriptPubKey (heldOutputs utxoUsed)
         @ map (filterElement ts) (createdOutputs block)"
    by (simp add: GetFilterForTransactionScript_def Let_def foldl_Add foldl_Add_plain
        NewFilter_def vin_scripts vout_scripts createdOutputs_def filterElement_def comp_def)
  show ?thesis using c r a by (simp only: simp_thms)
qed

lemma ApplyBlock_example:
  "ApplyBlock txHashExample inputsExample blockWithToken utxoLoadedExample
     = Some (Inr [(\<lparr>OutPointHash = 9, OutPointIndex = 0\<rparr>,
                   Some \<lparr>Output = Some \<lparr>Value = 7, ScriptPubKey = [0x51]\<rparr>, BlockHeight = 1,
                          IsCoinBase = False, IsSpent = True, IsModified = True\<rparr>),
                  (\<lparr>OutPointHash = 11, OutPointIndex = 0\<rparr>,
                   Some \<lparr>Output = Some \<lparr>Value = 50, ScriptPubKey = [0x52]\<rparr>, BlockHeight = 2,
                          IsCoinBase = True, IsSpent = False, IsModified = True\<rparr>),
                  (\<lparr>OutPointHash = 12, OutPointIndex = 0\<rparr>,
                   Some \<lparr>Output = Some \<lparr>Value = 0, ScriptPubKey = [0x76, 0xa9, 0x01, 0xc0]\<rparr>,
                          BlockHeight = 2, IsCoinBase = False, IsSpent = False,
                          IsModified = True\<rparr>)])"
  by (simp add: ApplyBlock_def blockWithToken_def inputsExample_def utxoLoadedExample_def
      txHashExample_def AddUtxo_def SpendUtxo_def FindUtxo_def putUtxo_def Let_def)

text \<open>
  Claim C8. The filter that \<open>applyBlock\<close> builds for a block is not the claimed one:
  \<open>utxoUsed\<close> is the utxo map after \<open>ApplyBlock\<close>, which holds the outputs the block
  has created beside the outputs its inputs refer to. In the example the inputs refer to
  one output, of script \<open>51\<close>, and the block creates two, which contribute \<open>52\<close> and the
  token prefix \<open>76 a9\<close>: the claimed capacity is \<open>1 + 2 + 1 = 4\<close> and the claimed
  elements are these three. The filter of \<open>applyBlock\<close> has capacity 6, and the full
  token script \<open>76 a9 01 c0\<close> is among its elements. On the utxo set as loaded, which
  is what \<open>loadFilters\<close> passes for the same block, \<open>GetFilterForTransactionScript\<close>
  builds the claimed filter.
\<close>

theorem applyBlock_filter_holds_created_outputs_in_full:
  "map ScriptPubKey (specReferencedOutputs inputsExample blockWithToken utxoLoadedExample)
     = [[0x51]]
   \<and> map (filterElement tokensExample) (createdOutputs blockWithToken) = [[0x52], [0x76, 0xa9]]
   \<and> applyBlockFilter tokensExample txHashExample inputsExample blockWithToken utxoLoadedExample
       = Some (Inr \<lparr>capacity = 6, fpRate = 1 / 10000,
                    added = [[0x51], [0x52], [0x76, 0xa9, 0x01, 0xc0], [0x52], [0x76, 0xa9]]\<rparr>)
   \<and> GetFilterForTransactionScript tokensExample blockWithToken utxoLoadedExample
       = \<lparr>capacity = 4, fpRate = 1 / 10000, added = [[0x51], [0x52], [0x76, 0xa9]]\<rparr>"
proof -
  have r: "map ScriptPubKey (specReferencedOutputs inputsExample blockWithToken utxoLoadedExample)
             = [[0x51]]"
    by (simp add: specReferencedOutputs_def blockWithToken_def inputsExample_def
        utxoLoadedExample_def FindUtxo_def)
  have c: "map (filterElement tokensExample) (createdOutputs blockWithToken)
             = [[0x52], [0x76, 0xa9]]"
    by (simp add: createdOutputs_def filterElement_def tokensExample_def blockWithToken_def)
  have a: "applyBlockFilter tokensExample txHashExample inputsExample blockWithToken
             utxoLoadedExample
       = Some (Inr \<lparr>capacity = 6, fpRate = 1 / 10000,
                    added = [[0x51], [0x52], [0x76, 0xa9, 0x01, 0xc0], [0x52], [0x76, 0xa9]]\<rparr>)"
    unfolding applyBlockFilter_def ApplyBlock_example
    by (simp add: GetFilterForTransactionScript_def Let_def NewFilter_def Add_def
        tokensExample_def blockWithToken_def)
  have l: "GetFilterForTransactionScript tokensExample blockWithToken utxoLoadedExample
       = \<lparr>capacity = 4, fpRate = 1 / 10000, added = [[0x51], [0x52], [0x76, 0xa9]]\<rparr>"
    by (simp add: GetFilterForTransactionScript_def Let_def NewFilter_def Add_def
        tokensExample_def blockWithToken_def utxoLoadedExample_def)
  show ?thesis using r c a l by (simp only: simp_thms)
qed

section \<open>Reorganization: the fork point (findFork)\<close>

text \<open>
  \<open>logger.Panicf\<close> panics: a call of \<open>findFork\<close> either panics or returns.
\<close>

datatype 'a outcome = Panic | Return 'a

text \<open>
  \<open>getParentBlock\<close>: the genesis block is its own parent; otherwise the parent is looked
  up by hash in the cache, then in storage, and is \<open>nil\<close> when storage fails.
\<close>

definition getParentBlock :: "'db ChainEnv \<Rightarrow> 'db ChainState \<Rightarrow> Block \<Rightarrow> Block option" where
  "getParentBlock env c block =
     (if BlockHash block = BlockHash (genesis c) then Some (genesis c)
      else
        (case cache c (PrevBlockHash block) of
           Some target \<Rightarrow> Some target
         | None \<Rightarrow>
             (case LoadBlockByHash env c (PrevBlockHash block) of
                Inl err \<Rightarrow> None
              | Inr target \<Rightarrow> Some target)))"

text \<open>
  The first loop of \<open>findFork\<close> counts \<open>i\<close>, a \<open>uint32\<close>, down from the height of the
  block to the longest height, and collects the side chain on the way.
\<close>

lemma u32_pred_less: "(l :: 32 word) < i \<Longrightarrow> unat (i - 1) < unat i"
proof -
  assume "l < i"
  then have "i \<noteq> 0" by (auto simp add: word_less_nat_alt)
  then show ?thesis by (rule measure_unat)
qed

function sideChainUp :: "'db ChainEnv \<Rightarrow> 'db ChainState \<Rightarrow> 32 word \<Rightarrow> Block option \<Rightarrow> Block list
    \<Rightarrow> (Block option \<times> Block list) outcome" where
  "sideChainUp env c i sideChainBlock attachBlocks =
     (if i > LongestChainHeight c then
        (case sideChainBlock of
           None \<Rightarrow> Panic
         | Some b \<Rightarrow> sideChainUp env c (i - 1) (getParentBlock env c b) (attachBlocks @ [b]))
      else Return (sideChainBlock, attachBlocks))"
  by pat_completeness auto
termination
  by (relation "measure (\<lambda>(env, c, i, sideChainBlock, attachBlocks). unat i)")
     (auto intro: u32_pred_less)

declare sideChainUp.simps [simp del]

text \<open>
  The second loop walks both chains in step until the hashes agree or a chain ends
  (\<open>found\<close> is the second component of the result). Nothing in the loop bounds the walk,
  so the loop is a partial function: the outer \<open>None\<close> is a walk that never ends.
\<close>

partial_function (option) forkLoop :: "'db ChainEnv \<Rightarrow> 'db ChainState \<Rightarrow> Block option \<Rightarrow> Block option
    \<Rightarrow> Block list \<Rightarrow> Block list \<Rightarrow> (Block option \<times> bool \<times> Block list \<times> Block list) outcome option" where
  "forkLoop env c mainChainBlock sideChainBlock detachBlocks attachBlocks =
     (case mainChainBlock of
        None \<Rightarrow> Some (Return (mainChainBlock, False, detachBlocks, attachBlocks))
      | Some m \<Rightarrow>
          (case sideChainBlock of
             None \<Rightarrow> Some (Return (mainChainBlock, False, detachBlocks, attachBlocks))
           | Some s \<Rightarrow>
               if Height m \<noteq> Height s then Some Panic
               else if BlockHash m = BlockHash s
               then Some (Return (mainChainBlock, True, detachBlocks, attachBlocks))
               else forkLoop env c (getParentBlock env c m) (getParentBlock env c s)
                      (detachBlocks @ [m]) (attachBlocks @ [s])))"

definition findFork :: "'db ChainEnv \<Rightarrow> 'db ChainState \<Rightarrow> Block
    \<Rightarrow> (Block option \<times> Block list \<times> Block list) outcome option" where
  "findFork env c block =
     (if Height block \<le> LongestChainHeight c then Some Panic
      else
        (case sideChainUp env c (Height block) (Some block) [] of
           Panic \<Rightarrow> Some Panic
         | Return (sideChainBlock, attachBlocks) \<Rightarrow>
             (case forkLoop env c (Some (tail c)) sideChainBlock [] attachBlocks of
                None \<Rightarrow> None
              | Some Panic \<Rightarrow> Some Panic
              | Some (Return (mainChainBlock, found, detachBlocks, attachBlocks')) \<Rightarrow>
                  if \<not> found then Some Panic
                  else if length attachBlocks' \<le> length detachBlocks then Some Panic
                  else Some (Return (mainChainBlock, detachBlocks, attachBlocks')))))"

text \<open>
  The block reached from \<open>b\<close> by \<open>n\<close> parent links, and the invariants of the blocks
  \<open>bs\<close> of a chain state: the longest height is the height of the tail; the parent of a
  block is again among the blocks and, for every block but genesis, one lower (what
  \<open>tryAcceptBlock\<close> requires before it stores a block); blocks with the same hash have
  the same height.
\<close>

fun nthParent :: "'db ChainEnv \<Rightarrow> 'db ChainState \<Rightarrow> nat \<Rightarrow> Block \<Rightarrow> Block option" where
  "nthParent env c 0 b = Some b"
| "nthParent env c (Suc n) b =
     (case getParentBlock env c b of None \<Rightarrow> None | Some p \<Rightarrow> nthParent env c n p)"

definition heightsConsistent :: "'db ChainEnv \<Rightarrow> 'db ChainState \<Rightarrow> Block list \<Rightarrow> bool" where
  "heightsConsistent env c bs =
     (LongestChainHeight c = Height (tail c)
      \<and> tail c \<in> set bs
      \<and> (\<forall>b \<in> set bs.
            case getParentBlock env c b of
              None \<Rightarrow> True
            | Some p \<Rightarrow> p \<in> set bs
                \<and> (BlockHash b \<noteq> BlockHash (genesis c) \<longrightarrow> unat (Height b) = unat (Height p) + 1))
      \<and> (\<forall>b \<in> set bs. \<forall>b' \<in> set bs. BlockHash b = BlockHash b' \<longrightarrow> Height b = Height b'))"

text \<open>An example: the main chain 100, 101 and the side chain 100, 201, 202.\<close>

definition forkState :: "unit ChainState" where
  "forkState = stateExample\<lparr>cache := (cache stateExample)(201 \<mapsto> blockExample 201 100 1)\<rparr>"


section \<open>Properties of the fork point\<close>

lemma nthParent_add:
  "nthParent env c (m + n) b =
     (case nthParent env c m b of None \<Rightarrow> None | Some x \<Rightarrow> nthParent env c n x)"
  by (induction m arbitrary: b) (auto split: option.splits)

lemma nthParent_prefix:
  assumes "nthParent env c n b = Some a" and "m \<le> n"
  shows "\<exists>x. nthParent env c m b = Some x"
proof -
  have "nthParent env c (m + (n - m)) b = Some a" using assms by simp
  then show ?thesis by (auto simp add: nthParent_add split: option.splits)
qed

lemma nthParent_genesis:
  assumes "BlockHash b = BlockHash (genesis c)"
  shows "nthParent env c (Suc n) b = Some (genesis c)"
proof (induction n)
  case 0
  then show ?case using assms by (simp add: getParentBlock_def)
next
  case (Suc n)
  have "nthParent env c (Suc n + 1) b = Some (genesis c)"
    unfolding nthParent_add using Suc by (simp add: getParentBlock_def)
  then show ?case by simp
qed

lemma consistent_parent:
  assumes "heightsConsistent env c bs" and "b \<in> set bs" and "getParentBlock env c b = Some p"
  shows "p \<in> set bs"
    and "BlockHash b \<noteq> BlockHash (genesis c) \<Longrightarrow> unat (Height b) = unat (Height p) + 1"
proof -
  from assms(1) have "\<forall>b \<in> set bs.
            case getParentBlock env c b of
              None \<Rightarrow> True
            | Some p \<Rightarrow> p \<in> set bs
                \<and> (BlockHash b \<noteq> BlockHash (genesis c) \<longrightarrow> unat (Height b) = unat (Height p) + 1)"
    unfolding heightsConsistent_def by (elim conjE)
  from this[THEN bspec, OF assms(2)] assms(3)
  have r: "p \<in> set bs
        \<and> (BlockHash b \<noteq> BlockHash (genesis c) \<longrightarrow> unat (Height b) = unat (Height p) + 1)"
    by simp
  from r show "p \<in> set bs" by simp
  from r show "BlockHash b \<noteq> BlockHash (genesis c) \<Longrightarrow> unat (Height b) = unat (Height p) + 1"
    by simp
qed

lemma consistent_same_hash:
  assumes "heightsConsistent env c bs" and "b \<in> set bs" and "b' \<in> set bs"
    and "BlockHash b = BlockHash b'"
  shows "Height b = Height b'"
proof -
  from assms(1) have "\<forall>b \<in> set bs. \<forall>b' \<in> set bs. BlockHash b = BlockHash b' \<longrightarrow> Height b = Height b'"
    unfolding heightsConsistent_def by (elim conjE)
  then show ?thesis using assms(2,3,4) by blast
qed

lemma nthParent_in_chain:
  assumes "heightsConsistent env c bs" and "b \<in> set bs" and "nthParent env c n b = Some a"
  shows "a \<in> set bs"
  using assms(2,3)
proof (induction n arbitrary: b)
  case 0
  then show ?case by simp
next
  case (Suc n)
  then obtain p where p: "getParentBlock env c b = Some p" and r: "nthParent env c n p = Some a"
    by (auto split: option.splits)
  have "p \<in> set bs" using consistent_parent(1)[OF assms(1) Suc.prems(1) p] .
  then show ?case using Suc.IH r by blast
qed

lemma nthParent_height:
  assumes "heightsConsistent env c bs" and "b \<in> set bs" and "nthParent env c n b = Some a"
    and "\<forall>m < n. \<forall>x. nthParent env c m b = Some x \<longrightarrow> BlockHash x \<noteq> BlockHash (genesis c)"
  shows "unat (Height b) = unat (Height a) + n"
  using assms(2,3,4)
proof (induction n arbitrary: b)
  case 0
  then show ?case by simp
next
  case (Suc n)
  then obtain p where p: "getParentBlock env c b = Some p" and r: "nthParent env c n p = Some a"
    by (auto split: option.splits)
  have ng: "BlockHash b \<noteq> BlockHash (genesis c)" using Suc.prems(3)[rule_format, of 0 b] by simp
  have pin: "p \<in> set bs" using consistent_parent(1)[OF assms(1) Suc.prems(1) p] .
  have hp: "unat (Height b) = unat (Height p) + 1"
    using consistent_parent(2)[OF assms(1) Suc.prems(1) p ng] .
  have "\<forall>m < n. \<forall>x. nthParent env c m p = Some x \<longrightarrow> BlockHash x \<noteq> BlockHash (genesis c)"
  proof (intro allI impI)
    fix m x assume "m < n" and "nthParent env c m p = Some x"
    then have "Suc m < Suc n" and "nthParent env c (Suc m) b = Some x" using p by auto
    then show "BlockHash x \<noteq> BlockHash (genesis c)" using Suc.prems(3) by blast
  qed
  from Suc.IH[OF pin r this] hp show ?case by simp
qed

lemma sideChainUp_walk:
  assumes "unat i = unat (LongestChainHeight c) + n" and "nthParent env c n b = Some s"
  shows "\<exists>att'. sideChainUp env c i (Some b) att = Return (Some s, att')
           \<and> length att' = length att + n"
  using assms
proof (induction n arbitrary: i b att)
  case 0
  then have "\<not> LongestChainHeight c < i" by (simp add: word_less_nat_alt)
  then show ?case using 0 by (simp add: sideChainUp.simps)
next
  case (Suc n)
  then obtain p where p: "getParentBlock env c b = Some p" and r: "nthParent env c n p = Some s"
    by (auto split: option.splits)
  have gt: "LongestChainHeight c < i" using Suc.prems(1) by (simp add: word_less_nat_alt)
  then have "i \<noteq> 0" by (auto simp add: word_less_nat_alt)
  then have "unat (i - 1) = unat (LongestChainHeight c) + n"
    using Suc.prems(1) by (simp add: unat_minus_one)
  from Suc.IH[OF this r, of "att @ [b]"] obtain att' where
    "sideChainUp env c (i - 1) (Some p) (att @ [b]) = Return (Some s, att')"
    and "length att' = length (att @ [b]) + n" by blast
  then show ?case using gt p by (subst sideChainUp.simps) simp
qed

lemma forkLoop_walk:
  assumes "nthParent env c k m = Some mk" and "nthParent env c k s = Some sk"
    and "BlockHash mk = BlockHash sk"
    and "\<forall>k' < k. \<forall>m' s'. nthParent env c k' m = Some m' \<and> nthParent env c k' s = Some s'
           \<longrightarrow> BlockHash m' \<noteq> BlockHash s'"
    and "\<forall>k' \<le> k. \<forall>m' s'. nthParent env c k' m = Some m' \<and> nthParent env c k' s = Some s'
           \<longrightarrow> Height m' = Height s'"
  shows "\<exists>det' att'. forkLoop env c (Some m) (Some s) det att
            = Some (Return (Some mk, True, det', att'))
           \<and> length det' = length det + k \<and> length att' = length att + k"
  using assms
proof (induction k arbitrary: m s det att)
  case 0
  have mk: "mk = m" "sk = s" using 0(1,2) by simp_all
  have h: "Height m = Height s" using 0(5)[rule_format, of 0 m s] by simp
  have e: "BlockHash m = BlockHash s" using 0(3) mk by simp
  show ?case using mk h e by (subst forkLoop.simps) simp
next
  case (Suc k)
  from Suc.prems(1) obtain pm where pm: "getParentBlock env c m = Some pm"
    and rm: "nthParent env c k pm = Some mk" by (auto split: option.splits)
  from Suc.prems(2) obtain ps where ps: "getParentBlock env c s = Some ps"
    and rs: "nthParent env c k ps = Some sk" by (auto split: option.splits)
  have h0: "Height m = Height s" using Suc.prems(5)[rule_format, of 0 m s] by simp
  have d0: "BlockHash m \<noteq> BlockHash s" using Suc.prems(4)[rule_format, of 0 m s] by simp
  have d: "\<forall>k' < k. \<forall>m' s'. nthParent env c k' pm = Some m' \<and> nthParent env c k' ps = Some s'
           \<longrightarrow> BlockHash m' \<noteq> BlockHash s'"
  proof (intro allI impI)
    fix k' m' s' assume "k' < k" and "nthParent env c k' pm = Some m' \<and> nthParent env c k' ps = Some s'"
    then have "Suc k' < Suc k" and "nthParent env c (Suc k') m = Some m' \<and> nthParent env c (Suc k') s = Some s'"
      using pm ps by auto
    then show "BlockHash m' \<noteq> BlockHash s'" using Suc.prems(4) by blast
  qed
  have h: "\<forall>k' \<le> k. \<forall>m' s'. nthParent env c k' pm = Some m' \<and> nthParent env c k' ps = Some s'
           \<longrightarrow> Height m' = Height s'"
  proof (intro allI impI)
    fix k' m' s' assume "k' \<le> k" and "nthParent env c k' pm = Some m' \<and> nthParent env c k' ps = Some s'"
    then have "Suc k' \<le> Suc k" and "nthParent env c (Suc k') m = Some m' \<and> nthParent env c (Suc k') s = Some s'"
      using pm ps by auto
    then show "Height m' = Height s'" using Suc.prems(5) by blast
  qed
  from Suc.IH[OF rm rs Suc.prems(3) d h, of "det @ [m]" "att @ [s]"] obtain det' att' where
    "forkLoop env c (Some pm) (Some ps) (det @ [m]) (att @ [s]) = Some (Return (Some mk, True, det', att'))"
    and "length det' = length (det @ [m]) + k" and "length att' = length (att @ [s]) + k"
    by blast
  then show ?case using h0 d0 pm ps by (subst forkLoop.simps) simp
qed

lemma fork_meeting_point:
  assumes hc: "heightsConsistent env c bs" and bin: "block \<in> set bs"
    and gt: "LongestChainHeight c < Height block"
    and pi: "nthParent env c i block = Some a" and pj: "nthParent env c j (tail c) = Some a'"
    and eq: "BlockHash a = BlockHash a'"
  shows "\<exists>k s m. nthParent env c (unat (Height block) - unat (LongestChainHeight c) + k) block = Some s
      \<and> nthParent env c k (tail c) = Some m \<and> BlockHash m = BlockHash s
      \<and> (\<forall>k' < k. \<forall>m' s'. nthParent env c k' (tail c) = Some m'
             \<and> nthParent env c (unat (Height block) - unat (LongestChainHeight c) + k') block = Some s'
             \<longrightarrow> BlockHash m' \<noteq> BlockHash s')
      \<and> (\<forall>k' \<le> k. \<forall>m' s'. nthParent env c k' (tail c) = Some m'
             \<and> nthParent env c (unat (Height block) - unat (LongestChainHeight c) + k') block = Some s'
             \<longrightarrow> Height m' = Height s')"
proof -
  define d where "d = unat (Height block) - unat (LongestChainHeight c)"
  define P where "P n \<longleftrightarrow> (\<exists>j x y. nthParent env c n block = Some x
      \<and> nthParent env c j (tail c) = Some y \<and> BlockHash x = BlockHash y)" for n
  have "P i" unfolding P_def using pi pj eq by blast
  define i0 where "i0 = (LEAST n. P n)"
  have Pi0: "P i0" unfolding i0_def using \<open>P i\<close> by (rule LeastI)
  have Pmin: "\<not> P n" if "n < i0" for n using that not_less_Least unfolding i0_def by blast
  define Q where "Q n \<longleftrightarrow> (\<exists>x y. nthParent env c i0 block = Some x
      \<and> nthParent env c n (tail c) = Some y \<and> BlockHash x = BlockHash y)" for n
  have "\<exists>n. Q n" using Pi0 unfolding P_def Q_def by blast
  then obtain j1 where "Q j1" by blast
  define j0 where "j0 = (LEAST n. Q n)"
  have Qj0: "Q j0" unfolding j0_def using \<open>Q j1\<close> by (rule LeastI)
  have Qmin: "\<not> Q n" if "n < j0" for n using that not_less_Least unfolding j0_def by blast
  from Qj0 obtain a0 b0 where a0: "nthParent env c i0 block = Some a0"
    and b0: "nthParent env c j0 (tail c) = Some b0" and e0: "BlockHash a0 = BlockHash b0"
    unfolding Q_def by blast
  have tin: "tail c \<in> set bs" and lh: "LongestChainHeight c = Height (tail c)"
    using hc unfolding heightsConsistent_def by simp_all
  have side_not_genesis: "BlockHash x \<noteq> BlockHash (genesis c)"
    if "n < i0" and "nthParent env c n block = Some x" for n x
  proof
    assume g: "BlockHash x = BlockHash (genesis c)"
    have "nthParent env c (n + Suc (i0 - n - 1)) block = nthParent env c (Suc (i0 - n - 1)) x"
      using nthParent_add[of env c n "Suc (i0 - n - 1)" block] that(2) by simp
    moreover have "n + Suc (i0 - n - 1) = i0" using that(1) by simp
    ultimately have "nthParent env c i0 block = nthParent env c (Suc (i0 - n - 1)) x"
      by simp
    then have "a0 = genesis c" using a0 nthParent_genesis[OF g, of env "i0 - n - 1"] by simp
    then have "BlockHash x = BlockHash b0" using g e0 by simp
    then have "P n" unfolding P_def using that(2) b0 by blast
    then show False using Pmin[OF that(1)] by simp
  qed
  have main_not_genesis: "BlockHash y \<noteq> BlockHash (genesis c)"
    if "n < j0" and "nthParent env c n (tail c) = Some y" for n y
  proof
    assume g: "BlockHash y = BlockHash (genesis c)"
    have "nthParent env c (n + Suc (j0 - n - 1)) (tail c) = nthParent env c (Suc (j0 - n - 1)) y"
      using nthParent_add[of env c n "Suc (j0 - n - 1)" "tail c"] that(2) by simp
    moreover have "n + Suc (j0 - n - 1) = j0" using that(1) by simp
    ultimately have "nthParent env c j0 (tail c) = nthParent env c (Suc (j0 - n - 1)) y"
      by simp
    then have "b0 = genesis c" using b0 nthParent_genesis[OF g, of env "j0 - n - 1"] by simp
    then have "BlockHash a0 = BlockHash y" using g e0 by simp
    then have "Q n" unfolding Q_def using that(2) a0 by blast
    then show False using Qmin[OF that(1)] by simp
  qed
  have side_height: "unat (Height block) = unat (Height x) + n"
    if "n \<le> i0" and "nthParent env c n block = Some x" for n x
  proof (rule nthParent_height[OF hc bin that(2)], intro allI impI)
    fix m y assume "m < n" and "nthParent env c m block = Some y"
    then show "BlockHash y \<noteq> BlockHash (genesis c)"
      using side_not_genesis[of m y] that(1) by simp
  qed
  have main_height: "unat (Height (tail c)) = unat (Height y) + n"
    if "n \<le> j0" and "nthParent env c n (tail c) = Some y" for n y
  proof (rule nthParent_height[OF hc tin that(2)], intro allI impI)
    fix m x assume "m < n" and "nthParent env c m (tail c) = Some x"
    then show "BlockHash x \<noteq> BlockHash (genesis c)"
      using main_not_genesis[of m x] that(1) by simp
  qed
  have a0in: "a0 \<in> set bs" using nthParent_in_chain[OF hc bin a0] .
  have b0in: "b0 \<in> set bs" using nthParent_in_chain[OF hc tin b0] .
  have hab: "Height a0 = Height b0" using consistent_same_hash[OF hc a0in b0in e0] .
  have lt: "unat (LongestChainHeight c) < unat (Height block)"
    using gt by (simp add: word_less_nat_alt)
  have lhu: "unat (LongestChainHeight c) = unat (Height (tail c))" using lh by simp
  have habu: "unat (Height a0) = unat (Height b0)" using hab by simp
  have i0eq: "i0 = d + j0"
    using side_height[OF le_refl a0] main_height[OF le_refl b0] habu lhu lt
    unfolding d_def by arith
  have meet: "nthParent env c (d + j0) block = Some a0" using a0 i0eq by simp
  have differ: "\<forall>k' < j0. \<forall>m' s'. nthParent env c k' (tail c) = Some m'
             \<and> nthParent env c (d + k') block = Some s' \<longrightarrow> BlockHash m' \<noteq> BlockHash s'"
  proof (intro allI impI notI)
    fix k' m' s'
    assume k: "k' < j0"
      and n: "nthParent env c k' (tail c) = Some m' \<and> nthParent env c (d + k') block = Some s'"
      and h: "BlockHash m' = BlockHash s'"
    have "nthParent env c (d + k') block = Some s' \<and> nthParent env c k' (tail c) = Some m'
            \<and> BlockHash s' = BlockHash m'"
      using n h by simp
    then have "P (d + k')" unfolding P_def by blast
    moreover have "d + k' < i0" using k i0eq by simp
    ultimately show False using Pmin by blast
  qed
  have heights: "\<forall>k' \<le> j0. \<forall>m' s'. nthParent env c k' (tail c) = Some m'
             \<and> nthParent env c (d + k') block = Some s' \<longrightarrow> Height m' = Height s'"
  proof (intro allI impI)
    fix k' m' s'
    assume k: "k' \<le> j0"
      and n: "nthParent env c k' (tail c) = Some m' \<and> nthParent env c (d + k') block = Some s'"
    have dk: "d + k' \<le> i0" using k i0eq by simp
    have "unat (Height (tail c)) = unat (Height m') + k'" using main_height[OF k] n by simp
    moreover have "unat (Height block) = unat (Height s') + (d + k')"
      using side_height[OF dk] n by simp
    ultimately have "unat (Height m') = unat (Height s')" using lhu lt unfolding d_def by arith
    then show "Height m' = Height s'" by (simp add: word_unat_eq_iff)
  qed
  have "nthParent env c (d + j0) block = Some a0
      \<and> nthParent env c j0 (tail c) = Some b0 \<and> BlockHash b0 = BlockHash a0
      \<and> (\<forall>k' < j0. \<forall>m' s'. nthParent env c k' (tail c) = Some m'
             \<and> nthParent env c (d + k') block = Some s' \<longrightarrow> BlockHash m' \<noteq> BlockHash s')
      \<and> (\<forall>k' \<le> j0. \<forall>m' s'. nthParent env c k' (tail c) = Some m'
             \<and> nthParent env c (d + k') block = Some s' \<longrightarrow> Height m' = Height s')"
    using meet b0 e0[symmetric] differ heights by (intro conjI)
  then show ?thesis unfolding d_def by (intro exI[of _ j0] exI[of _ a0] exI[of _ b0])
qed

text \<open>
  Claim C5. The block is strictly higher than the longest height of the main chain, and
  the parent links from the block and from the tail reach blocks of the same hash, a
  common ancestor. Then, in a chain state whose heights are consistent, \<open>findFork\<close>
  returns, without panic: the fork point, the blocks to detach and the blocks to attach,
  and there are strictly more blocks to attach than to detach.
\<close>

theorem findFork_attaches_more_than_it_detaches:
  assumes "heightsConsistent env c bs" and "block \<in> set bs"
    and "LongestChainHeight c < Height block"
    and "nthParent env c i block = Some a" and "nthParent env c j (tail c) = Some a'"
    and "BlockHash a = BlockHash a'"
  shows "\<exists>forkBlock detachBlocks attachBlocks.
           findFork env c block = Some (Return (Some forkBlock, detachBlocks, attachBlocks))
           \<and> length detachBlocks < length attachBlocks"
proof -
  define d where "d = unat (Height block) - unat (LongestChainHeight c)"
  from fork_meeting_point[OF assms] obtain k s m where
    sk: "nthParent env c (d + k) block = Some s"
    and mk: "nthParent env c k (tail c) = Some m" and e: "BlockHash m = BlockHash s"
    and differ: "\<forall>k' < k. \<forall>m' s'. nthParent env c k' (tail c) = Some m'
             \<and> nthParent env c (d + k') block = Some s' \<longrightarrow> BlockHash m' \<noteq> BlockHash s'"
    and heights: "\<forall>k' \<le> k. \<forall>m' s'. nthParent env c k' (tail c) = Some m'
             \<and> nthParent env c (d + k') block = Some s' \<longrightarrow> Height m' = Height s'"
    unfolding d_def by blast
  have lt: "unat (LongestChainHeight c) < unat (Height block)"
    using assms(3) by (simp add: word_less_nat_alt)
  then have dpos: "0 < d" and hd: "unat (Height block) = unat (LongestChainHeight c) + d"
    unfolding d_def by simp_all
  obtain s0 where s0: "nthParent env c d block = Some s0"
    using nthParent_prefix[OF sk, of d] by auto
  have shift: "nthParent env c (d + n) block = nthParent env c n s0" for n
    using s0 by (simp add: nthParent_add)
  obtain att1 where up: "sideChainUp env c (Height block) (Some block) [] = Return (Some s0, att1)"
    and l1: "length att1 = d"
    using sideChainUp_walk[OF hd s0, of "[]"] by auto
  have sk': "nthParent env c k s0 = Some s" using sk shift by simp
  have differ': "\<forall>k' < k. \<forall>m' s'. nthParent env c k' (tail c) = Some m'
             \<and> nthParent env c k' s0 = Some s' \<longrightarrow> BlockHash m' \<noteq> BlockHash s'"
    using differ unfolding shift .
  have heights': "\<forall>k' \<le> k. \<forall>m' s'. nthParent env c k' (tail c) = Some m'
             \<and> nthParent env c k' s0 = Some s' \<longrightarrow> Height m' = Height s'"
    using heights unfolding shift .
  obtain det att2 where
    loop: "forkLoop env c (Some (tail c)) (Some s0) [] att1 = Some (Return (Some m, True, det, att2))"
    and ld: "length det = k" and la: "length att2 = length att1 + k"
    using forkLoop_walk[OF mk sk' e differ' heights', of "[]" att1] by auto
  have "\<not> Height block \<le> LongestChainHeight c" using assms(3) by simp
  then have "findFork env c block = Some (Return (Some m, det, att2))"
    using up loop ld la l1 dpos by (simp add: findFork_def)
  then show ?thesis using ld la l1 dpos by (intro exI[of _ m] exI[of _ det] exI[of _ att2]) simp
qed

theorem findFork_attaches_more_than_it_detaches_witness:
  "heightsConsistent envExample forkState
     [blockExample 202 201 2, blockExample 201 100 1, blockExample 101 100 1, blockExample 100 0 0]
   \<and> LongestChainHeight forkState < Height (blockExample 202 201 2)
   \<and> nthParent envExample forkState (Suc (Suc 0)) (blockExample 202 201 2)
        = Some (blockExample 100 0 0)
   \<and> nthParent envExample forkState (Suc 0) (tail forkState) = Some (blockExample 100 0 0)
   \<and> (\<exists>forkBlock detachBlocks attachBlocks.
          findFork envExample forkState (blockExample 202 201 2)
            = Some (Return (Some forkBlock, detachBlocks, attachBlocks))
          \<and> length detachBlocks < length attachBlocks)"
proof -
  let ?bs = "[blockExample 202 201 2, blockExample 201 100 1, blockExample 101 100 1,
              blockExample 100 0 0]"
  have h1: "heightsConsistent envExample forkState ?bs"
    by (simp add: heightsConsistent_def getParentBlock_def forkState_def stateExample_def
        blockExample_def envExample_def LoadBlockByHash_def)
  have h2: "blockExample 202 201 2 \<in> set ?bs" by simp
  have h3: "LongestChainHeight forkState < Height (blockExample 202 201 2)"
    by (simp add: forkState_def stateExample_def blockExample_def word_less_nat_alt)
  have h4: "nthParent envExample forkState (Suc (Suc 0)) (blockExample 202 201 2)
              = Some (blockExample 100 0 0)"
    by (simp add: getParentBlock_def forkState_def stateExample_def blockExample_def)
  have h5: "nthParent envExample forkState (Suc 0) (tail forkState) = Some (blockExample 100 0 0)"
    by (simp add: getParentBlock_def forkState_def stateExample_def blockExample_def)
  have h6: "BlockHash (blockExample 100 0 0) = BlockHash (blockExample 100 0 0)" by simp
  show ?thesis
    using findFork_attaches_more_than_it_detaches[OF h1 h2 h3 h4 h5 h6] h1 h3 h4 h5
    by (intro conjI)
qed

lemma findFork_example:
  "findFork envExample forkState (blockExample 202 201 2)
   = Some (Return (Some (blockExample 100 0 0), [blockExample 101 100 1], [blockExample 202 201 2, blockExample 201 100 1]))"
  by (simp add: findFork_def sideChainUp.simps forkLoop.simps getParentBlock_def forkState_def stateExample_def blockExample_def envExample_def LoadBlockByHash_def
      word_le_nat_alt word_less_nat_alt)

end
